theory Spec2Isabelle
  imports Main "HOL-Library.Word"
begin

section \<open>Python values used by \<^verbatim>\<open>api_v2.py\<close>\<close>

text \<open>
  The client of \<^verbatim>\<open>custom_components/twinfresh/api_v2.py\<close> works on hexadecimal text:
  a packet is a \<^verbatim>\<open>str\<close> of hex digits, a response is a list of two-character tokens.
  Hex text is ASCII and is modelled as \<^typ>\<open>string\<close>. The credentials are arbitrary
  Python strings, so they are lists of Unicode code points, and bytes are 8-bit words.
  Every \<^verbatim>\<open>raise\<close> of the source and every exception of a builtin it calls is a value
  of \<open>error\<close>; a function that can raise returns \<open>error + 'a\<close>.
\<close>

datatype error =
    Exception string
  | ValueError string
  | IndexError
  | KeyError string
  | UnicodeEncodeError
  | OSError string

type_synonym byte = "8 word"
type_synonym pystr = "nat list"

subsection \<open>\<^verbatim>\<open>str.upper\<close>, \<^verbatim>\<open>format\<close>, \<^verbatim>\<open>int(_, 16)\<close>\<close>

definition upper_char :: "char \<Rightarrow> char" where
  "upper_char c =
     (case map_of (zip ''abcdefghijklmnopqrstuvwxyz'' ''ABCDEFGHIJKLMNOPQRSTUVWXYZ'') c of
        None \<Rightarrow> c
      | Some u \<Rightarrow> u)"

definition upper :: "string \<Rightarrow> string" where
  "upper s = map upper_char s"

definition hexchar :: "nat \<Rightarrow> char" where
  "hexchar d = ''0123456789abcdef'' ! d"

definition decchar :: "nat \<Rightarrow> char" where
  "decchar d = ''0123456789'' ! d"

text \<open>The digits of \<^verbatim>\<open>format(n, 'x')\<close> and \<^verbatim>\<open>format(n, 'd')\<close>, most significant first.\<close>

fun hex_digits :: "nat \<Rightarrow> string" where
  "hex_digits n = (if n < 16 then [hexchar n] else hex_digits (n div 16) @ [hexchar (n mod 16)])"

fun dec_digits :: "nat \<Rightarrow> string" where
  "dec_digits n = (if n < 10 then [decchar n] else dec_digits (n div 10) @ [decchar (n mod 10)])"

declare hex_digits.simps [simp del]
declare dec_digits.simps [simp del]

text \<open>A width in a format spec is a minimum: longer renderings are not cut.\<close>

definition zfill :: "nat \<Rightarrow> string \<Rightarrow> string" where
  "zfill w s = replicate (w - length s) (CHR ''0'') @ s"

definition format_02x :: "nat \<Rightarrow> string" where
  "format_02x n = zfill 2 (hex_digits n)"

definition format_04X :: "nat \<Rightarrow> string" where
  "format_04X n = zfill 4 (upper (hex_digits n))"

definition format_02d :: "nat \<Rightarrow> string" where
  "format_02d n = zfill 2 (dec_digits n)"

text \<open>
  \<^verbatim>\<open>f"{s:02}"\<close> on a \<^verbatim>\<open>str\<close> (Python 3.10 and later): the text is left-aligned
  and filled with \<^verbatim>\<open>0\<close> up to width 2.
\<close>

definition format_str_02 :: "string \<Rightarrow> string" where
  "format_str_02 s = s @ replicate (2 - length s) (CHR ''0'')"

definition hexval :: "char \<Rightarrow> nat option" where
  "hexval c =
     map_of (zip ''0123456789abcdefABCDEF''
       [0, 1, 2, 3, 4, 5, 6, 7, 8, 9, 10, 11, 12, 13, 14, 15, 10, 11, 12, 13, 14, 15]) c"

definition is_hex :: "char \<Rightarrow> bool" where
  "is_hex c = (hexval c \<noteq> None)"

text \<open>
  \<^verbatim>\<open>int(s, 16)\<close> on text made of hex digits, and its \<^verbatim>\<open>ValueError\<close> on the empty
  text and on any other character. (Python's \<^verbatim>\<open>int\<close> also accepts a sign, blanks,
  underscores and a \<^verbatim>\<open>0x\<close> prefix; no text on the paths modelled here, all of it
  rendered from bytes or integers, has them.)
\<close>

definition py_int16 :: "string \<Rightarrow> error + nat" where
  "py_int16 s =
     (if s = [] \<or> \<not> list_all is_hex s
      then Inl (ValueError ''invalid literal for int() with base 16'')
      else Inr (foldl (\<lambda>a c. 16 * a + the (hexval c)) 0 s))"

subsection \<open>Bytes and their hex text\<close>

text \<open>\<^verbatim>\<open>bytes.hex()\<close>: two lower-case hex digits per byte.\<close>

definition bytes_hex :: "byte list \<Rightarrow> string" where
  "bytes_hex bs = concat (map (\<lambda>b. format_02x (unat b)) bs)"

section \<open>Checksum unit\<close>

text \<open>\<^verbatim>\<open>_hexlist\<close>: \<^verbatim>\<open>[hexstr[i : i + 2] for i in range(0, len(hexstr), 2)]\<close>.\<close>

fun hexlist :: "string \<Rightarrow> string list" where
  "hexlist [] = []"
| "hexlist [a] = [[a]]"
| "hexlist (a # b # r) = [a, b] # hexlist r"

text \<open>The \<^verbatim>\<open>for\<close> loop of \<^verbatim>\<open>_checksum\<close>, with the running sum as accumulator.\<close>

fun checksum_loop :: "string list \<Rightarrow> nat \<Rightarrow> error + nat" where
  "checksum_loop [] checksum = Inr checksum"
| "checksum_loop (hexstr # rest) checksum =
     (case py_int16 hexstr of
        Inl e \<Rightarrow> Inl e
      | Inr v \<Rightarrow> checksum_loop rest (checksum + v))"

definition checksum :: "string \<Rightarrow> error + string" where
  "checksum data =
     (case checksum_loop (drop 2 (hexlist data)) 0 of
        Inl e \<Rightarrow> Inl e
      | Inr c \<Rightarrow>
          (let checksum_str = format_04X c
           in Inr (format_str_02 (take 2 (drop 2 checksum_str)) @
                   format_str_02 (take 2 checksum_str))))"

text \<open>
  What section 4.1 of the specification asks of the checksum, in its own words: the sum
  of all bytes but the leading two, truncated to 16 bits, as the two bytes
  \<^verbatim>\<open>[sum & 0xFF][sum >> 8]\<close>.
\<close>

definition spec_checksum :: "byte list \<Rightarrow> string" where
  "spec_checksum bs =
     (let s = sum_list (map unat (drop 2 bs)) mod 65536
      in upper (format_02x (s mod 256)) @ upper (format_02x (s div 256)))"

section \<open>Control flow of exceptions\<close>

text \<open>Sequencing: the second computation runs only if the first did not raise.\<close>

definition and_then :: "error + 'a \<Rightarrow> ('a \<Rightarrow> error + 'b) \<Rightarrow> error + 'b" where
  "and_then r f = (case r of Inl e \<Rightarrow> Inl e | Inr v \<Rightarrow> f v)"

text \<open>\<^verbatim>\<open>try: body except KeyError: handler\<close>: only a \<^verbatim>\<open>KeyError\<close> is caught.\<close>

definition except_KeyError :: "error + 'a \<Rightarrow> 'a \<Rightarrow> error + 'a" where
  "except_KeyError body handler =
     (case body of
        Inl (KeyError k) \<Rightarrow> Inr handler
      | Inl e \<Rightarrow> Inl e
      | Inr v \<Rightarrow> Inr v)"

text \<open>\<^verbatim>\<open>d[k]\<close> on a \<^verbatim>\<open>dict\<close>.\<close>

definition dict_getitem :: "(string \<rightharpoonup> 'v) \<Rightarrow> string \<Rightarrow> error + 'v" where
  "dict_getitem d k = (case d k of None \<Rightarrow> Inl (KeyError k) | Some v \<Rightarrow> Inr v)"

text \<open>
  \<^verbatim>\<open>xs[i]\<close> on a \<^verbatim>\<open>list\<close>: \<open>list_get\<close> where the index is a count from
  0 upwards, \<open>list_getitem\<close> for any integer; a negative index counts from the end.
\<close>

definition list_get :: "'a list \<Rightarrow> nat \<Rightarrow> error + 'a" where
  "list_get xs i = (if i < length xs then Inr (xs ! i) else Inl IndexError)"

definition list_getitem :: "'a list \<Rightarrow> int \<Rightarrow> error + 'a" where
  "list_getitem xs i =
     (if 0 \<le> i \<and> i < int (length xs) then Inr (xs ! nat i)
      else if i < 0 \<and> - i \<le> int (length xs) then Inr (xs ! nat (int (length xs) + i))
      else Inl IndexError)"

section \<open>Constants of \<^verbatim>\<open>api_v2.py\<close>\<close>

definition PACKET_PREFIX :: string where "PACKET_PREFIX = ''FDFD''"
definition PACKET_PROTOCOL_TYPE :: string where "PACKET_PROTOCOL_TYPE = ''02''"
definition PACKET_SIZE_ID :: string where "PACKET_SIZE_ID = ''10''"

definition FUNC_READ :: string where "FUNC_READ = ''01''"
definition FUNC_READ_WRITE :: string where "FUNC_READ_WRITE = ''03''"
definition FUNC_RESULT :: string where "FUNC_RESULT = ''06''"

definition RETURN_CHANGE_FUNC :: string where "RETURN_CHANGE_FUNC = ''FC''"
definition RETURN_INVALID :: string where "RETURN_INVALID = ''FD''"
definition RETURN_VALUE_SIZE :: string where "RETURN_VALUE_SIZE = ''FE''"
definition RETURN_HIGH_BYTE :: string where "RETURN_HIGH_BYTE = ''FF''"

definition COMMAND_ON_OFF :: string where "COMMAND_ON_OFF = ''01''"
definition COMMAND_SPEED :: string where "COMMAND_SPEED = ''02''"
definition COMMAND_CURRENT_HUMIDITY :: string where "COMMAND_CURRENT_HUMIDITY = ''25''"
definition COMMAND_DIRECTION :: string where "COMMAND_DIRECTION = ''B7''"
definition COMMAND_DEVICE_TYPE :: string where "COMMAND_DEVICE_TYPE = ''B9''"
definition COMMAND_MODE :: string where "COMMAND_MODE = ''07''"

definition POWER_OFF :: string where "POWER_OFF = ''00''"
definition POWER_ON :: string where "POWER_ON = ''01''"

definition MODE_OFF :: string where "MODE_OFF = ''01''"
definition MODE_SLEEP :: string where "MODE_SLEEP = ''01''"
definition MODE_PARTY :: string where "MODE_PARTY = ''02''"

text \<open>
  Modelled from the spec: the preset names \<^verbatim>\<open>PRESET_MODE_AUTO\<close>,
  \<^verbatim>\<open>PRESET_MODE_SLEEP\<close> and \<^verbatim>\<open>PRESET_MODE_PARTY\<close> are imported from \<^verbatim>\<open>const.py\<close>,
  which is not among the source files. Section 3 of the specification gives the mode
  of a status as an enumeration of auto, sleep and party: three distinct values.
\<close>

datatype preset = PRESET_MODE_AUTO | PRESET_MODE_SLEEP | PRESET_MODE_PARTY

text \<open>
  The \<^verbatim>\<open>dict\<close> display of \<^verbatim>\<open>MODES\<close> inserts its entries from left to right; a
  repeated key keeps the last value.
\<close>

definition MODES :: "string \<rightharpoonup> preset" where
  "MODES = Map.empty(MODE_OFF \<mapsto> PRESET_MODE_AUTO, MODE_SLEEP \<mapsto> PRESET_MODE_SLEEP,
     MODE_PARTY \<mapsto> PRESET_MODE_PARTY)"

section \<open>State translator\<close>

text \<open>
  The status \<^verbatim>\<open>dict\<close> that \<^verbatim>\<open>_translate_response\<close> returns, one field per key;
  \<open>direction = None\<close> is Python's \<^verbatim>\<open>None\<close>.
\<close>

record status =
  is_on :: bool
  speed :: string
  oscillating :: bool
  direction :: "string option"
  mode :: preset

text \<open>
  \<^verbatim>\<open>DIRECTIONS\<close>, \<^verbatim>\<open>DIRECTION_ALTERNATING\<close> and \<^verbatim>\<open>FAN_SPEEDS\<close> come from
  \<^verbatim>\<open>const.py\<close> too. Their values are not known here, so they are the fields of a
  parameter: \<open>DIRECTIONS\<close> is the \<^verbatim>\<open>dict\<close> from direction code to direction name,
  as the list of its items in insertion order, and \<open>FAN_SPEEDS\<close> the collection of
  valid speeds.
\<close>

record const_py =
  DIRECTIONS :: "(string \<times> string) list"
  DIRECTION_ALTERNATING :: string
  FAN_SPEEDS :: "string list"

text \<open>A table of this shape, for the closed instances below.\<close>

definition example_consts :: const_py where
  "example_consts =
     \<lparr>DIRECTIONS = [(''00'', ''forward''), (''01'', ''alternating''), (''02'', ''reverse'')],
      DIRECTION_ALTERNATING = ''alternating'',
      FAN_SPEEDS = [''01'', ''02'', ''03'']\<rparr>"

definition translate_response :: "const_py \<Rightarrow> (string \<rightharpoonup> string) \<Rightarrow> error + status" where
  "translate_response K data =
     and_then
       (except_KeyError
          (and_then (dict_getitem data COMMAND_ON_OFF) (\<lambda>v. Inr (v = POWER_ON)))
          False)
       (\<lambda>is_on.
     and_then
       (except_KeyError
          (and_then (dict_getitem data COMMAND_SPEED) (\<lambda>v.
           and_then (py_int16 v) (\<lambda>n. Inr (format_02d n))))
          ''00'')
       (\<lambda>speed.
     and_then
       (except_KeyError
          (and_then (dict_getitem data COMMAND_DIRECTION) (\<lambda>c.
           and_then (dict_getitem (map_of (DIRECTIONS K)) c) (\<lambda>direction.
           Inr (Some direction, direction = DIRECTION_ALTERNATING K))))
          (None, True))
       (\<lambda>(direction, oscillating).
     and_then
       (except_KeyError
          (and_then (dict_getitem data COMMAND_MODE) (\<lambda>c. dict_getitem MODES c))
          PRESET_MODE_AUTO)
       (\<lambda>mode.
     Inr \<lparr>is_on = is_on, speed = speed, oscillating = oscillating,
          direction = direction, mode = mode\<rparr>))))"

section \<open>Response field parser\<close>

lemma and_then_cong [fundef_cong]:
  "r = r' \<Longrightarrow> (\<And>v. r' = Inr v \<Longrightarrow> f v = f' v) \<Longrightarrow> and_then r f = and_then r' f'"
  by (cases r') (simp_all add: and_then_def)

text \<open>
  The header part of \<^verbatim>\<open>_parse_response\<close>: the prefix and protocol type are compared,
  the id block and the password block are skipped by their length tokens. The result
  is \<^verbatim>\<open>start\<close>, the index of the function token.
\<close>

definition parse_header :: "string list \<Rightarrow> error + nat" where
  "parse_header hl =
     (if concat (take 2 hl) \<noteq> PACKET_PREFIX then Inl (Exception ''Invalid packet prefix'')
      else
        and_then (list_get hl 2) (\<lambda>t.
        if t \<noteq> PACKET_PROTOCOL_TYPE then Inl (Exception ''Invalid packet protocol type'')
        else
          and_then (list_get hl 3) (\<lambda>t.
          and_then (py_int16 t) (\<lambda>n.
          let start = 3 + (1 + n) in
          and_then (list_get hl start) (\<lambda>t.
          and_then (py_int16 t) (\<lambda>m.
          Inr (start + (1 + m))))))))"

text \<open>
  The \<^verbatim>\<open>while\<close> loop over the fields, from index \<open>i\<close> with the \<^verbatim>\<open>dict\<close> built so
  far. The value of an explicit-size field is the slice
  \<^verbatim>\<open>hexlist[i + 1 : i + 1 + value_size]\<close>, joined, cut into two-character pieces and
  reversed; a slice never raises, it is shorter when the list ends early.
\<close>

function parse_fields ::
  "string list \<Rightarrow> nat \<Rightarrow> (string \<rightharpoonup> string) \<Rightarrow> error + (string \<rightharpoonup> string)" where
  "parse_fields hl i data =
     (if int i < int (length hl) - 2 then
        and_then (list_get hl i) (\<lambda>parameter.
        if parameter = RETURN_CHANGE_FUNC then
          Inl (Exception ''special function, change base function not implemented'')
        else if parameter = RETURN_INVALID then
          and_then (list_get hl (i + 1)) (\<lambda>cmd.
          parse_fields hl (i + 1 + 1) (data(cmd \<mapsto> '''')))
        else if parameter = RETURN_VALUE_SIZE then
          and_then (list_get hl (i + 1)) (\<lambda>t.
          and_then (py_int16 t) (\<lambda>value_size.
          and_then (list_get hl (i + 1 + 1)) (\<lambda>cmd.
          let value = concat (take value_size (drop (i + 1 + 1 + 1) hl));
              value = concat (rev (hexlist value))
          in parse_fields hl (i + 1 + 1 + value_size + 1) (data(cmd \<mapsto> value)))))
        else if parameter = RETURN_HIGH_BYTE then
          Inl (Exception ''special function, high byte not implemented'')
        else
          and_then (list_get hl (i + 1)) (\<lambda>value.
          parse_fields hl (i + 1 + 1) (data(parameter \<mapsto> value))))
      else Inr data)"
  by pat_completeness auto
termination
  by (relation "measure (\<lambda>(hl, i, data). length hl - i)") auto

declare parse_fields.simps [simp del]

text \<open>
  \<^verbatim>\<open>_parse_response\<close>: header, function token, fields; the \<^verbatim>\<open>except KeyError\<close>
  around the whole body turns a \<^verbatim>\<open>KeyError\<close>, and nothing else, into an
  \<^verbatim>\<open>Exception\<close>.
\<close>

definition parse_response :: "string list \<Rightarrow> error + (string \<rightharpoonup> string)" where
  "parse_response hl =
     (case
        and_then (parse_header hl) (\<lambda>start.
        and_then (list_get hl start) (\<lambda>t.
        if t \<noteq> FUNC_RESULT then Inl (Exception ''Invalid result function'')
        else parse_fields hl (start + 1) Map.empty))
      of
        Inl (KeyError k) \<Rightarrow>
          Inl (Exception (''Error translating response from fan controller: '' @
            [CHR 0x27] @ k @ [CHR 0x27]))
      | r \<Rightarrow> r)"

section \<open>Packet codec\<close>

text \<open>\<^verbatim>\<open>str.encode("utf-8")\<close>; a surrogate code point cannot be encoded.\<close>

definition utf8_char :: "nat \<Rightarrow> error + byte list" where
  "utf8_char c =
     (if c < 0x80 then Inr [of_nat c]
      else if c < 0x800 then Inr [of_nat (0xC0 + c div 0x40), of_nat (0x80 + c mod 0x40)]
      else if 0xD800 \<le> c \<and> c < 0xE000 then Inl UnicodeEncodeError
      else if c < 0x10000 then
        Inr [of_nat (0xE0 + c div 0x1000), of_nat (0x80 + c div 0x40 mod 0x40),
             of_nat (0x80 + c mod 0x40)]
      else if c < 0x110000 then
        Inr [of_nat (0xF0 + c div 0x40000), of_nat (0x80 + c div 0x1000 mod 0x40),
             of_nat (0x80 + c div 0x40 mod 0x40), of_nat (0x80 + c mod 0x40)]
      else Inl UnicodeEncodeError)"

fun encode_utf8 :: "pystr \<Rightarrow> error + byte list" where
  "encode_utf8 [] = Inr []"
| "encode_utf8 (c # cs) =
     and_then (utf8_char c) (\<lambda>bs.
     and_then (encode_utf8 cs) (\<lambda>rest. Inr (bs @ rest)))"

text \<open>The code points that have an encoding: all but the surrogates.\<close>

definition encodable :: "nat \<Rightarrow> bool" where
  "encodable c = (c < 0xD800 \<or> (0xE000 \<le> c \<and> c < 0x110000))"

text \<open>
  The client object. \<^verbatim>\<open>len(self.password)\<close> counts code points, not bytes.
\<close>

record api =
  host :: pystr
  port :: int
  idnum :: pystr
  password :: pystr

definition login_packet :: "'a api_scheme \<Rightarrow> error + string" where
  "login_packet self =
     and_then (encode_utf8 (idnum self)) (\<lambda>id_bytes.
     let id_hex = bytes_hex id_bytes;
         password_size = format_02x (length (password self))
     in
     and_then (encode_utf8 (password self)) (\<lambda>password_bytes.
     let password_hex = bytes_hex password_bytes
     in Inr (upper (PACKET_PREFIX @ PACKET_PROTOCOL_TYPE @ PACKET_SIZE_ID @ id_hex @
                    password_size @ password_hex))))"

definition build_packet :: "'a api_scheme \<Rightarrow> string \<Rightarrow> string \<Rightarrow> error + string" where
  "build_packet self func data =
     and_then (login_packet self) (\<lambda>login.
     let packet_str = upper (login @ func @ data)
     in and_then (checksum packet_str) (\<lambda>c. Inr (packet_str @ c)))"

text \<open>
  \<^verbatim>\<open>bytes.fromhex\<close>: blanks between bytes are skipped, every byte is two hex digits.
\<close>

definition is_space :: "char \<Rightarrow> bool" where
  "is_space c = (c \<in> set [CHR '' '', CHR 0x09, CHR 0x0A, CHR 0x0B, CHR 0x0C, CHR 0x0D])"

fun bytes_fromhex :: "string \<Rightarrow> error + byte list" where
  "bytes_fromhex [] = Inr []"
| "bytes_fromhex [a] =
     (if is_space a then Inr []
      else Inl (ValueError ''non-hexadecimal number found in fromhex() arg''))"
| "bytes_fromhex (a # b # r) =
     (if is_space a then bytes_fromhex (b # r)
      else
        (case (hexval a, hexval b) of
           (Some h, Some l) \<Rightarrow>
             and_then (bytes_fromhex r) (\<lambda>bs. Inr (of_nat (16 * h + l) # bs))
         | _ \<Rightarrow> Inl (ValueError ''non-hexadecimal number found in fromhex() arg'')))"

text \<open>
  Decoding a datagram into tokens, as \<^verbatim>\<open>_send_command\<close> does:
  \<^verbatim>\<open>["".join(x) for x in zip(*[iter(result_str)] * 2)]\<close> on
  \<^verbatim>\<open>result_data.hex().upper()\<close>.
\<close>

fun pairs :: "string \<Rightarrow> string list" where
  "pairs (a # b # r) = [a, b] # pairs r"
| "pairs r = []"

definition decode :: "byte list \<Rightarrow> string list" where
  "decode result_data = pairs (upper (bytes_hex result_data))"

definition verify_checksum :: "string list \<Rightarrow> error + bool" where
  "verify_checksum hl =
     and_then (checksum (concat (take (length hl - 2) hl))) (\<lambda>c.
     and_then (list_getitem hl (- 2)) (\<lambda>a.
     and_then (list_getitem hl (- 1)) (\<lambda>b.
     Inr (c = a @ b))))"

text \<open>The token of a byte in a decoded datagram: its two upper-case hex digits.\<close>

definition token :: "byte \<Rightarrow> string" where
  "token b = upper (format_02x (unat b))"

text \<open>
  A well-formed field stream, by the encodings of section 4.3 of the specification: the
  fields fill the stream exactly. A plain field and an invalid-command field take two
  bytes; an explicit-size field takes its marker, the size \<open>n\<close>, the command and \<open>n\<close>
  value bytes, all of them present. At a marker that the parser does not support
  (\<^verbatim>\<open>FC\<close>, \<^verbatim>\<open>FF\<close>) parsing ends, so nothing is asked of what follows it.
\<close>

function fields_ok :: "byte list \<Rightarrow> bool" where
  "fields_ok fs =
     (case fs of
        [] \<Rightarrow> True
      | p # r \<Rightarrow>
          if p = 0xFC \<or> p = 0xFF then True
          else if p = 0xFE then
            (case r of
               n # c # v \<Rightarrow> unat n \<le> length v \<and> fields_ok (drop (unat n) v)
             | _ \<Rightarrow> False)
          else
            (case r of
               [] \<Rightarrow> False
             | v # r' \<Rightarrow> fields_ok r'))"
  by pat_completeness auto
termination
  by (relation "measure length") auto

declare fields_ok.simps [simp del]

text \<open>The upper-case hex digits, as characters.\<close>

definition upper_hex :: "char set" where
  "upper_hex = (\<lambda>d. upper_char (hexchar d)) ` {..<16}"

section \<open>Transport and client\<close>

text \<open>
  One exchange of \<^verbatim>\<open>_send_command\<close>: the socket is opened, the datagram is sent to
  \<^verbatim>\<open>(host, port)\<close> and one datagram of at most 256 bytes is received. The network is
  a parameter: \<open>exchange\<close> takes the state of the world, the address and the request,
  and returns the datagram received, or the error of the socket, with the new state of
  the world. Everything before the socket is opened leaves the world as it is.
\<close>

type_synonym 'w transport = "'w \<Rightarrow> pystr \<times> int \<Rightarrow> byte list \<Rightarrow> (error + byte list) \<times> 'w"

definition send_command ::
  "'w transport \<Rightarrow> 'a api_scheme \<Rightarrow> string \<Rightarrow> string \<Rightarrow> 'w \<Rightarrow> (error + string list) \<times> 'w" where
  "send_command exchange self func data w =
     (case and_then (build_packet self func data) bytes_fromhex of
        Inl e \<Rightarrow> (Inl e, w)
      | Inr packet_data \<Rightarrow>
          (case exchange w (host self, port self) packet_data of
             (Inl e, w') \<Rightarrow> (Inl e, w')
           | (Inr received, w') \<Rightarrow>
               (let result_hexlist = decode (take 256 received)
                in (and_then (verify_checksum result_hexlist) (\<lambda>ok.
                      if \<not> ok then Inl (Exception ''Checksum error'')
                      else Inr result_hexlist),
                    w'))))"

definition api_status ::
  "'w transport \<Rightarrow> const_py \<Rightarrow> 'a api_scheme \<Rightarrow> 'w \<Rightarrow> (error + status) \<times> 'w" where
  "api_status exchange K self w =
     (let cmd = upper (COMMAND_DEVICE_TYPE @ COMMAND_ON_OFF @ COMMAND_SPEED @
                       COMMAND_CURRENT_HUMIDITY @ COMMAND_DIRECTION @ COMMAND_MODE)
      in case send_command exchange self FUNC_READ cmd w of
           (Inl e, w') \<Rightarrow> (Inl e, w')
         | (Inr hl, w') \<Rightarrow>
             (and_then (parse_response hl)
                (translate_response K), w'))"

text \<open>
  The two lines every mutating command ends with: the write exchange, then a fresh
  \<^verbatim>\<open>status()\<close>.
\<close>

definition write_then_status ::
  "'w transport \<Rightarrow> const_py \<Rightarrow> 'a api_scheme \<Rightarrow> string \<Rightarrow> 'w \<Rightarrow> (error + status) \<times> 'w" where
  "write_then_status exchange K self cmd w =
     (case send_command exchange self FUNC_READ_WRITE cmd w of
        (Inl e, w') \<Rightarrow> (Inl e, w')
      | (Inr hl, w') \<Rightarrow> api_status exchange K self w')"

definition api_speed ::
  "'w transport \<Rightarrow> const_py \<Rightarrow> 'a api_scheme \<Rightarrow> string \<Rightarrow> 'w \<Rightarrow> (error + status) \<times> 'w" where
  "api_speed exchange K self spd w =
     (if spd \<notin> set (FAN_SPEEDS K)
      then (Inl (ValueError (''Invalid fan speed: '' @ spd)), w)
      else write_then_status exchange K self (upper (COMMAND_SPEED @ spd)) w)"

text \<open>\<^verbatim>\<open>list.index\<close>: the first position of a value.\<close>

fun list_index :: "'a list \<Rightarrow> 'a \<Rightarrow> error + nat" where
  "list_index [] x = Inl (ValueError ''x is not in list'')"
| "list_index (y # ys) x =
     (if y = x then Inr 0 else and_then (list_index ys x) (\<lambda>i. Inr (Suc i)))"

definition api_direction ::
  "'w transport \<Rightarrow> const_py \<Rightarrow> 'a api_scheme \<Rightarrow> string \<Rightarrow> 'w \<Rightarrow> (error + status) \<times> 'w" where
  "api_direction exchange K self dir w =
     (case
        (if dir \<in> set (map snd (DIRECTIONS K))
         then and_then (list_index (map snd (DIRECTIONS K)) dir) (\<lambda>i.
              list_get (map fst (DIRECTIONS K)) i)
         else Inr dir)
      of
        Inl e \<Rightarrow> (Inl e, w)
      | Inr code \<Rightarrow>
          if code \<notin> set (map fst (DIRECTIONS K))
          then (Inl (ValueError (''Invalid fan direction: '' @ code)), w)
          else write_then_status exchange K self (upper (COMMAND_DIRECTION @ code)) w)"

text \<open>
  A transport for the closed instances: the world is the list of datagrams sent so far,
  and no answer ever arrives.
\<close>

definition no_reply :: "byte list list transport" where
  "no_reply w address request = (Inl (OSError ''timed out''), w @ [request])"

section \<open>The header of section 4.2, and example clients\<close>

text \<open>
  The packet header as section 4.2 of the specification words it: the prefix, the
  protocol type, a fixed size-class marker, then the id length in one byte and the id
  bytes, then the password length in one byte and the password bytes.
\<close>

definition spec_login_header :: "'a api_scheme \<Rightarrow> error + string" where
  "spec_login_header self =
     and_then (encode_utf8 (idnum self)) (\<lambda>id_bytes.
     and_then (encode_utf8 (password self)) (\<lambda>password_bytes.
     Inr (upper (PACKET_PREFIX @ PACKET_PROTOCOL_TYPE @ PACKET_SIZE_ID @
                 format_02x (length id_bytes) @ bytes_hex id_bytes @
                 format_02x (length password_bytes) @ bytes_hex password_bytes))))"

text \<open>A Python \<^verbatim>\<open>str\<close> given by its ASCII text.\<close>

definition py_str :: "string \<Rightarrow> pystr" where
  "py_str s = map of_char s"

text \<open>
  The client of the specification's end-to-end example (id \<^verbatim>\<open>A1\<close>, password
  \<^verbatim>\<open>pw\<close>), a client with an id of 16 characters, one with an id of 256 characters and
  one with a password of 300 characters.
\<close>

definition spec_example :: api where
  "spec_example = \<lparr>host = py_str ''10.0.0.2'', port = 4000, idnum = py_str ''A1'',
     password = py_str ''pw''\<rparr>"

definition device_example :: api where
  "device_example = \<lparr>host = py_str ''10.0.0.2'', port = 4000,
     idnum = py_str ''0123456789ABCDEF'', password = py_str ''1111''\<rparr>"

definition long_id_example :: api where
  "long_id_example = \<lparr>host = py_str ''10.0.0.2'', port = 4000,
     idnum = replicate 256 (of_char CHR ''A''), password = py_str ''pw''\<rparr>"

definition long_password_example :: api where
  "long_password_example = \<lparr>host = py_str ''10.0.0.2'', port = 4000,
     idnum = py_str ''A1'', password = replicate 300 (of_char CHR ''p'')\<rparr>"

section \<open>Properties\<close>

subsection \<open>Hex text\<close>

lemma digit_cases:
  assumes "(d::nat) < 16"
  obtains "d = 0" | "d = 1" | "d = 2" | "d = 3" | "d = 4" | "d = 5" | "d = 6" | "d = 7"
    | "d = 8" | "d = 9" | "d = 10" | "d = 11" | "d = 12" | "d = 13" | "d = 14" | "d = 15"
  using assms by atomize_elim arith

lemma hexval_upper_hexchar:
  "d < 16 \<Longrightarrow> hexval (upper_char (hexchar d)) = Some d"
  by (erule digit_cases) (simp_all add: hexval_def upper_char_def hexchar_def)

lemma hexval_hexchar: "d < 16 \<Longrightarrow> hexval (hexchar d) = Some d"
  by (erule digit_cases) (simp_all add: hexval_def hexchar_def)

lemma format_02x_byte:
  assumes "n < 256"
  shows "format_02x n = [hexchar (n div 16), hexchar (n mod 16)]"
proof (cases "n < 16")
  case True
  then have "hex_digits n = [hexchar n]"
    by (simp add: hex_digits.simps [of n])
  with True show ?thesis
    by (simp add: format_02x_def zfill_def hexchar_def)
next
  case False
  with assms have "n div 16 < 16" by arith
  then have "hex_digits (n div 16) = [hexchar (n div 16)]"
    by (simp add: hex_digits.simps [of "n div 16"])
  with False have "hex_digits n = [hexchar (n div 16), hexchar (n mod 16)]"
    by (simp add: hex_digits.simps [of n])
  then show ?thesis
    by (simp add: format_02x_def zfill_def)
qed


text \<open>The token of a byte: its two upper-case hex digits.\<close>

lemma upper_format_02x_byte:
  "n < 256 \<Longrightarrow>
   upper (format_02x n) = [upper_char (hexchar (n div 16)), upper_char (hexchar (n mod 16))]"
  by (simp add: format_02x_byte upper_def)

lemma py_int16_token:
  assumes "n < 256"
  shows "py_int16 (upper (format_02x n)) = Inr n"
proof -
  from assms have hi: "n div 16 < 16" by arith
  have lo: "n mod 16 < 16" by simp
  have "16 * (n div 16) + n mod 16 = n" by simp
  with assms show ?thesis
    by (simp add: upper_format_02x_byte py_int16_def is_hex_def
        hexval_upper_hexchar [OF hi] hexval_upper_hexchar [OF lo])
qed

lemma hexlist_tokens:
  "\<forall>t \<in> set ts. length t = 2 \<Longrightarrow> hexlist (concat ts) = ts"
proof (induction ts)
  case Nil
  then show ?case by simp
next
  case (Cons t ts)
  then have "length t = 2" by simp
  then obtain a b where "t = [a, b]"
    by (cases t; cases "tl t") auto
  with Cons show ?case by simp
qed

lemma length_upper_format_02x: "n < 256 \<Longrightarrow> length (upper (format_02x n)) = 2"
  by (simp add: upper_format_02x_byte)

lemma upper_bytes_hex:
  "upper (bytes_hex bs) = concat (map (\<lambda>b. upper (format_02x (unat b))) bs)"
  by (simp add: bytes_hex_def upper_def map_concat comp_def)

lemma unat_byte_less: "unat (b::byte) < 256"
  using unsigned_less [of b, where 'a = nat] by simp

lemma hexlist_upper_bytes_hex:
  "hexlist (upper (bytes_hex bs)) = map (\<lambda>b. upper (format_02x (unat b))) bs"
  unfolding upper_bytes_hex
  by (rule hexlist_tokens) (auto simp: length_upper_format_02x unat_byte_less)

lemma checksum_loop_tokens:
  "checksum_loop (map (\<lambda>b::byte. upper (format_02x (unat b))) bs) acc =
   Inr (acc + sum_list (map unat bs))"
  by (induction bs arbitrary: acc) (simp_all add: py_int16_token [OF unat_byte_less])

lemma checksum_bytes:
  "checksum (upper (bytes_hex bs)) =
   Inr (format_str_02 (take 2 (drop 2 (format_04X (sum_list (map unat (drop 2 bs)))))) @
        format_str_02 (take 2 (format_04X (sum_list (map unat (drop 2 bs))))))"
  by (simp add: checksum_def hexlist_upper_bytes_hex drop_map checksum_loop_tokens Let_def)

subsection \<open>The checksum against section 4.1\<close>

text \<open>
  C3. The specification truncates the sum to 16 bits before it renders the two bytes;
  \<^verbatim>\<open>_checksum\<close> formats the untruncated sum with \<^verbatim>\<open>04X\<close>, a minimum width, and
  slices the first four digits. On the 260 bytes \<^verbatim>\<open>FF\<close> (sum \<^verbatim>\<open>0x100FE\<close>) the
  code answers \<^verbatim>\<open>0F10\<close>, where the truncated sum \<^verbatim>\<open>0x00FE\<close> gives \<^verbatim>\<open>FE00\<close>.
\<close>

theorem checksum_overflow_differs:
  "checksum (upper (bytes_hex (replicate 260 255))) = Inr ''0F10'' \<and>
   spec_checksum (replicate 260 255) = ''FE00''"
proof -
  have s: "sum_list (map unat (drop 2 (replicate 260 (255::byte)))) = 65790"
    by (simp add: sum_list_replicate)
  have h: "hex_digits 65790 = ''100fe''"
    by (simp add: hex_digits.simps hexchar_def)
  have "checksum (upper (bytes_hex (replicate 260 255))) = Inr ''0F10''"
    unfolding checksum_bytes s
    by (simp add: format_04X_def h upper_def upper_char_def zfill_def format_str_02_def)
  moreover have "spec_checksum (replicate 260 255) = ''FE00''"
    unfolding spec_checksum_def s
    by (simp add: format_02x_byte upper_def upper_char_def hexchar_def)
  ultimately show ?thesis ..
qed

subsection \<open>The state translator\<close>

lemmas api_consts =
  PACKET_PREFIX_def PACKET_PROTOCOL_TYPE_def PACKET_SIZE_ID_def
  FUNC_READ_def FUNC_READ_WRITE_def FUNC_RESULT_def
  RETURN_CHANGE_FUNC_def RETURN_INVALID_def RETURN_VALUE_SIZE_def RETURN_HIGH_BYTE_def
  COMMAND_ON_OFF_def COMMAND_SPEED_def COMMAND_CURRENT_HUMIDITY_def COMMAND_DIRECTION_def
  COMMAND_DEVICE_TYPE_def COMMAND_MODE_def POWER_OFF_def POWER_ON_def
  MODE_OFF_def MODE_SLEEP_def MODE_PARTY_def

lemma and_then_Inr [simp]: "and_then (Inr v) f = f v"
  by (simp add: and_then_def)

lemma and_then_Inl [simp]: "and_then (Inl e) f = Inl e"
  by (simp add: and_then_def)

lemma except_KeyError_simps [simp]:
  "except_KeyError (Inr v) h = Inr v"
  "except_KeyError (Inl (KeyError k)) h = Inr h"
  "except_KeyError (Inl (ValueError m)) h = Inl (ValueError m)"
  "except_KeyError (Inl (Exception m)) h = Inl (Exception m)"
  "except_KeyError (Inl IndexError) h = Inl IndexError"
  "except_KeyError (Inl UnicodeEncodeError) h = Inl UnicodeEncodeError"
  "except_KeyError (Inl (OSError m)) h = Inl (OSError m)"
  by (simp_all add: except_KeyError_def)

lemma dict_getitem_simps [simp]:
  "d k = None \<Longrightarrow> dict_getitem d k = Inl (KeyError k)"
  "d k = Some v \<Longrightarrow> dict_getitem d k = Inr v"
  by (simp_all add: dict_getitem_def)

text \<open>The mode of a status, as the fourth \<^verbatim>\<open>try\<close> block computes it.\<close>

lemma mode_lookup:
  "except_KeyError (and_then (dict_getitem data COMMAND_MODE) (\<lambda>c. dict_getitem MODES c))
     PRESET_MODE_AUTO =
   Inr (if data COMMAND_MODE = Some ''01'' then PRESET_MODE_SLEEP
        else if data COMMAND_MODE = Some ''02'' then PRESET_MODE_PARTY
        else PRESET_MODE_AUTO)"
proof (cases "data COMMAND_MODE")
  case None
  then show ?thesis by simp
next
  case (Some c)
  then show ?thesis
    by (cases "MODES c") (auto simp: MODES_def api_consts split: if_splits)
qed

text \<open>
  C5. \<^verbatim>\<open>_translate_response\<close> catches \<^verbatim>\<open>KeyError\<close> around each lookup, so a missing
  key gives the default. The speed block also calls \<^verbatim>\<open>int(_, 16)\<close>, whose
  \<^verbatim>\<open>ValueError\<close> is not caught: on the field map that holds the speed command with
  the empty value (what the parser stores for a command the controller rejected) the
  translator raises instead of returning a status.
\<close>

theorem translate_response_empty_speed_raises:
  "translate_response K (Map.empty(''02'' \<mapsto> '''')) =
   Inl (ValueError ''invalid literal for int() with base 16'')"
  by (simp add: translate_response_def api_consts py_int16_def)

lemma length_dec_digits_small: "n < 10 \<Longrightarrow> length (dec_digits n) = 1"
  by (simp add: dec_digits.simps [of n])

lemma length_dec_digits_two: "10 \<le> n \<Longrightarrow> n < 100 \<Longrightarrow> length (dec_digits n) = 2"
  by (simp add: dec_digits.simps [of n] length_dec_digits_small)

lemma length_dec_digits_large: "100 \<le> n \<Longrightarrow> 3 \<le> length (dec_digits n)"
proof -
  assume n: "100 \<le> n"
  have pos: "1 \<le> length (dec_digits m)" for m
    by (induction m rule: dec_digits.induct) (simp add: dec_digits.simps)
  from n have "10 \<le> n div 10" by arith
  then have "2 \<le> length (dec_digits (n div 10))"
    using pos [of "n div 10 div 10"] by (simp add: dec_digits.simps [of "n div 10"])
  with n show ?thesis
    by (simp add: dec_digits.simps [of n])
qed

lemma length_format_02d: "length (format_02d n) = 2 \<longleftrightarrow> n < 100"
proof (cases "n < 10")
  case True
  then show ?thesis by (simp add: format_02d_def zfill_def length_dec_digits_small)
next
  case False
  show ?thesis
  proof (cases "n < 100")
    case True
    with False show ?thesis by (simp add: format_02d_def zfill_def length_dec_digits_two)
  next
    case False
    then have "3 \<le> length (dec_digits n)" by (simp add: length_dec_digits_large)
    with False show ?thesis by (simp add: format_02d_def zfill_def)
  qed
qed

text \<open>
  C6, as the specification states it, fails on a speed field that holds the byte
  \<^verbatim>\<open>FF\<close>: the format \<^verbatim>\<open>02\<close> is a minimum width, and the speed is the three
  digits \<^verbatim>\<open>255\<close>.
\<close>

theorem translate_response_speed_three_digits:
  "translate_response example_consts (Map.empty(''02'' \<mapsto> ''FF'')) =
   Inr \<lparr>is_on = False, speed = ''255'', oscillating = True, direction = None,
        mode = PRESET_MODE_AUTO\<rparr>"
  by (simp add: translate_response_def api_consts py_int16_def is_hex_def hexval_def
      format_02d_def zfill_def dec_digits.simps decchar_def)

text \<open>
  C6, amended. A field map without the on/off, direction and mode fields translates to
  \<open>is_on = False\<close>, \<open>direction = None\<close>, \<open>oscillating = True\<close> and the auto mode.
  Its speed is \<^verbatim>\<open>00\<close> when the speed field is absent; when the field holds hex
  digits of value \<open>n\<close>, the speed is \<open>n\<close> in decimal, filled with zeros to at least two
  digits: exactly two for \<open>n < 100\<close>, more from 100 on.
\<close>

theorem translate_response_defaults:
  assumes "data COMMAND_ON_OFF = None"
    and "data COMMAND_DIRECTION = None"
    and "data COMMAND_MODE = None"
  shows "(data COMMAND_SPEED = None \<longrightarrow>
          translate_response K data =
          Inr \<lparr>is_on = False, speed = ''00'', oscillating = True, direction = None,
               mode = PRESET_MODE_AUTO\<rparr>) \<and>
         (\<forall>v n. data COMMAND_SPEED = Some v \<and> py_int16 v = Inr n \<longrightarrow>
          translate_response K data =
          Inr \<lparr>is_on = False, speed = format_02d n, oscillating = True, direction = None,
               mode = PRESET_MODE_AUTO\<rparr> \<and>
          (length (format_02d n) = 2 \<longleftrightarrow> n < 100) \<and> 2 \<le> length (format_02d n))"
proof (intro conjI impI allI)
  assume "data COMMAND_SPEED = None"
  with assms show "translate_response K data =
      Inr \<lparr>is_on = False, speed = ''00'', oscillating = True, direction = None,
           mode = PRESET_MODE_AUTO\<rparr>"
    by (simp add: translate_response_def)
next
  fix v n
  assume "data COMMAND_SPEED = Some v \<and> py_int16 v = Inr n"
  with assms show "translate_response K data =
      Inr \<lparr>is_on = False, speed = format_02d n, oscillating = True, direction = None,
           mode = PRESET_MODE_AUTO\<rparr>"
    by (simp add: translate_response_def)
next
  fix v n
  show "(length (format_02d n) = 2) = (n < 100)"
    by (rule length_format_02d)
next
  fix v n
  show "2 \<le> length (format_02d n)"
    by (simp add: format_02d_def zfill_def)
qed

theorem translate_response_defaults_witness:
  "translate_response example_consts (Map.empty(''02'' \<mapsto> ''1F'')) =
     Inr \<lparr>is_on = False, speed = ''31'', oscillating = True, direction = None,
          mode = PRESET_MODE_AUTO\<rparr> \<and>
   translate_response example_consts Map.empty =
     Inr \<lparr>is_on = False, speed = ''00'', oscillating = True, direction = None,
          mode = PRESET_MODE_AUTO\<rparr>"
proof -
  have v: "py_int16 ''1F'' = Inr 31"
    by (simp add: py_int16_def is_hex_def hexval_def)
  have f: "format_02d 31 = ''31''"
    by (simp add: format_02d_def zfill_def dec_digits.simps decchar_def)
  have "translate_response example_consts (Map.empty(''02'' \<mapsto> ''1F'')) =
     Inr \<lparr>is_on = False, speed = ''31'', oscillating = True, direction = None,
          mode = PRESET_MODE_AUTO\<rparr>"
    using translate_response_defaults [of "Map.empty(''02'' \<mapsto> ''1F'')" example_consts] v f
    by (simp add: api_consts)
  moreover have "translate_response example_consts Map.empty =
     Inr \<lparr>is_on = False, speed = ''00'', oscillating = True, direction = None,
          mode = PRESET_MODE_AUTO\<rparr>"
    using translate_response_defaults [of Map.empty example_consts] by simp
  ultimately show ?thesis ..
qed

text \<open>
  When does the translator return? Whenever the speed field is absent or holds hex
  digits; the other three blocks cannot raise anything but the \<^verbatim>\<open>KeyError\<close> they
  catch.
\<close>

lemma translate_response_returns:
  assumes "data COMMAND_SPEED = None \<or> (\<exists>v n. data COMMAND_SPEED = Some v \<and> py_int16 v = Inr n)"
  shows "\<exists>st. translate_response K data = Inr st"
proof -
  obtain b where b: "except_KeyError
      (and_then (dict_getitem data COMMAND_ON_OFF) (\<lambda>v. Inr (v = POWER_ON))) False = Inr b"
    by (cases "data COMMAND_ON_OFF") auto
  obtain s where s: "except_KeyError
      (and_then (dict_getitem data COMMAND_SPEED) (\<lambda>v.
       and_then (py_int16 v) (\<lambda>n. Inr (format_02d n)))) ''00'' = Inr s"
    using assms by auto
  obtain d where d: "except_KeyError
      (and_then (dict_getitem data COMMAND_DIRECTION) (\<lambda>c.
       and_then (dict_getitem (map_of (DIRECTIONS K)) c) (\<lambda>direction.
       Inr (Some direction, direction = DIRECTION_ALTERNATING K)))) (None, True) = Inr d"
    by (cases "data COMMAND_DIRECTION"; cases "map_of (DIRECTIONS K) (the (data COMMAND_DIRECTION))")
      auto
  show ?thesis
    unfolding translate_response_def b s d mode_lookup
    by (cases d) simp
qed

text \<open>
  C9. \<^verbatim>\<open>MODE_OFF\<close> and \<^verbatim>\<open>MODE_SLEEP\<close> are both \<^verbatim>\<open>01\<close>, so the \<^verbatim>\<open>MODES\<close> table
  maps \<^verbatim>\<open>01\<close> to sleep and has no entry that yields auto. In every status the
  translator returns, a mode field \<^verbatim>\<open>01\<close> gives sleep, and the mode is auto exactly when
  the mode field is absent or holds a value other than \<^verbatim>\<open>01\<close> and \<^verbatim>\<open>02\<close>.
\<close>

theorem translate_response_mode:
  assumes "translate_response K data = Inr st"
  shows "(data COMMAND_MODE = Some ''01'' \<longrightarrow> mode st = PRESET_MODE_SLEEP) \<and>
         (mode st = PRESET_MODE_AUTO \<longleftrightarrow>
            data COMMAND_MODE = None \<or>
            (\<exists>v. data COMMAND_MODE = Some v \<and> v \<notin> {''01'', ''02''}))"
proof -
  let ?m = "if data COMMAND_MODE = Some ''01'' then PRESET_MODE_SLEEP
            else if data COMMAND_MODE = Some ''02'' then PRESET_MODE_PARTY
            else PRESET_MODE_AUTO"
  from assms have "mode st = ?m"
    unfolding translate_response_def mode_lookup
    by (auto simp: and_then_def split: sum.splits prod.splits)
  then show ?thesis
    by (cases "data COMMAND_MODE") auto
qed

theorem translate_response_mode_witness:
  "translate_response example_consts (Map.empty(''07'' \<mapsto> ''01'')) =
     Inr \<lparr>is_on = False, speed = ''00'', oscillating = True, direction = None,
          mode = PRESET_MODE_SLEEP\<rparr> \<and>
   mode \<lparr>is_on = False, speed = ''00'', oscillating = True, direction = None,
         mode = PRESET_MODE_SLEEP\<rparr> = PRESET_MODE_SLEEP"
proof -
  have r: "translate_response example_consts (Map.empty(''07'' \<mapsto> ''01'')) =
     Inr \<lparr>is_on = False, speed = ''00'', oscillating = True, direction = None,
          mode = PRESET_MODE_SLEEP\<rparr>"
    by (simp add: translate_response_def api_consts MODES_def)
  from translate_response_mode [OF r] r show ?thesis
    by (simp add: api_consts)
qed

subsection \<open>Tokens and list access\<close>

lemma length_token [simp]: "length (token b) = 2"
  by (simp add: token_def length_upper_format_02x unat_byte_less)

lemma py_int16_of_token [simp]: "py_int16 (token b) = Inr (unat b)"
  by (simp add: token_def py_int16_token unat_byte_less)

lemma pairs_tokens: "\<forall>t \<in> set ts. length t = 2 \<Longrightarrow> pairs (concat ts) = ts"
proof (induction ts)
  case Nil
  then show ?case by simp
next
  case (Cons t ts)
  then have "length t = 2" by simp
  then obtain a b where "t = [a, b]"
    by (cases t; cases "tl t") auto
  with Cons show ?case by simp
qed

lemma decode_tokens: "decode bs = map token bs"
proof -
  have "upper (bytes_hex bs) = concat (map token bs)"
    by (simp add: upper_bytes_hex token_def [abs_def])
  then show ?thesis
    by (simp add: decode_def pairs_tokens)
qed

subsection \<open>The field loop never reads out of range\<close>

text \<open>
  Inside the loop \<open>i < len(hexlist) - 2\<close> holds, so the tokens at \<open>i\<close>, \<open>i + 1\<close> and
  \<open>i + 2\<close> exist: no subscript of the loop can raise. What the loop can raise is the
  \<^verbatim>\<open>Exception\<close> of the two unsupported markers, and the \<^verbatim>\<open>ValueError\<close> of a size
  token that is not a number, which a token of a byte never is.
\<close>

lemma parse_fields_results:
  assumes "\<And>t. t \<in> set hl \<Longrightarrow> \<exists>n. py_int16 t = Inr n"
  shows "(\<exists>m. parse_fields hl i data = Inr m) \<or>
         parse_fields hl i data =
           Inl (Exception ''special function, change base function not implemented'') \<or>
         parse_fields hl i data =
           Inl (Exception ''special function, high byte not implemented'')"
  using assms
proof (induction hl i data rule: parse_fields.induct)
  case (1 hl i data)
  show ?case
  proof (cases "int i < int (length hl) - 2")
    case False
    then show ?thesis by (simp add: parse_fields.simps [of hl i data])
  next
    case True
    then have len: "i < length hl" "i + 1 < length hl" "i + 2 < length hl" by auto
    from len obtain n where n: "py_int16 (hl ! (i + 1)) = Inr n"
      using "1.prems" [of "hl ! (i + 1)"] by auto
    let ?p = "hl ! i"
    consider "?p = RETURN_CHANGE_FUNC"
      | "?p \<noteq> RETURN_CHANGE_FUNC" "?p = RETURN_INVALID"
      | "?p \<noteq> RETURN_CHANGE_FUNC" "?p \<noteq> RETURN_INVALID" "?p = RETURN_VALUE_SIZE"
      | "?p \<noteq> RETURN_CHANGE_FUNC" "?p \<noteq> RETURN_INVALID" "?p \<noteq> RETURN_VALUE_SIZE"
        "?p = RETURN_HIGH_BYTE"
      | "?p \<noteq> RETURN_CHANGE_FUNC" "?p \<noteq> RETURN_INVALID" "?p \<noteq> RETURN_VALUE_SIZE"
        "?p \<noteq> RETURN_HIGH_BYTE"
      by blast
    then show ?thesis
    proof cases
      case 1
      with True len show ?thesis
        by (simp add: parse_fields.simps [of hl i data] list_get_def)
    next
      case 2
      have "parse_fields hl i data = parse_fields hl (i + 1 + 1) (data(hl ! (i + 1) \<mapsto> ''''))"
        using True len 2 by (simp add: parse_fields.simps [of hl i data] list_get_def)
      moreover have "(\<exists>m. parse_fields hl (i + 1 + 1) (data(hl ! (i + 1) \<mapsto> '''')) = Inr m) \<or>
         parse_fields hl (i + 1 + 1) (data(hl ! (i + 1) \<mapsto> '''')) =
           Inl (Exception ''special function, change base function not implemented'') \<or>
         parse_fields hl (i + 1 + 1) (data(hl ! (i + 1) \<mapsto> '''')) =
           Inl (Exception ''special function, high byte not implemented'')"
        using True len 2 "1.prems"
        by (intro "1.IH"(1) [of "hl ! i" "hl ! (i + 1)"]) (simp_all add: list_get_def)
      ultimately show ?thesis by simp
    next
      case 3
      let ?v = "concat (rev (hexlist (concat (take n (drop (i + 1 + 1 + 1) hl)))))"
      let ?d = "data(hl ! (i + 1 + 1) \<mapsto> ?v)"
      have "parse_fields hl i data = parse_fields hl (i + 1 + 1 + n + 1) ?d"
        using True len 3 n
        by (simp add: parse_fields.simps [of hl i data] list_get_def Let_def)
      moreover have "(\<exists>m. parse_fields hl (i + 1 + 1 + n + 1) ?d = Inr m) \<or>
         parse_fields hl (i + 1 + 1 + n + 1) ?d =
           Inl (Exception ''special function, change base function not implemented'') \<or>
         parse_fields hl (i + 1 + 1 + n + 1) ?d =
           Inl (Exception ''special function, high byte not implemented'')"
        using True len 3 n "1.prems"
        by (intro "1.IH"(2) [of "hl ! i" "hl ! (i + 1)" n "hl ! (i + 1 + 1)"
              "concat (take n (drop (i + 1 + 1 + 1) hl))" ?v])
          (simp_all add: list_get_def)
      ultimately show ?thesis by simp
    next
      case 4
      with True len show ?thesis
        by (simp add: parse_fields.simps [of hl i data] list_get_def)
    next
      case 5
      have "parse_fields hl i data = parse_fields hl (i + 1 + 1) (data(hl ! i \<mapsto> hl ! (i + 1)))"
        using True len 5 by (simp add: parse_fields.simps [of hl i data] list_get_def)
      moreover have "(\<exists>m. parse_fields hl (i + 1 + 1) (data(hl ! i \<mapsto> hl ! (i + 1))) = Inr m) \<or>
         parse_fields hl (i + 1 + 1) (data(hl ! i \<mapsto> hl ! (i + 1))) =
           Inl (Exception ''special function, change base function not implemented'') \<or>
         parse_fields hl (i + 1 + 1) (data(hl ! i \<mapsto> hl ! (i + 1))) =
           Inl (Exception ''special function, high byte not implemented'')"
        using True len 5 "1.prems"
        by (intro "1.IH"(3) [of "hl ! i" "hl ! (i + 1)"]) (simp_all add: list_get_def)
      ultimately show ?thesis by simp
    qed
  qed
qed

lemma replicate_small:
  "replicate 1 x = [x]" "replicate 2 x = [x, x]" "replicate 3 x = [x, x, x]"
  by (simp_all add: numeral_2_eq_2 numeral_3_eq_3)

lemma token_values:
  "token 0xFD = ''FD''" "token 0xFE = ''FE''" "token 0xFC = ''FC''" "token 0xFF = ''FF''"
  "token 0x02 = ''02''" "token 0x06 = ''06''" "token 0x10 = ''10''" "token 0x00 = ''00''"
  by (simp_all add: token_def format_02x_byte upper_def upper_char_def hexchar_def)

lemma token_inject [simp]: "token a = token b \<longleftrightarrow> a = b"
proof
  assume "token a = token b"
  then have "py_int16 (token a) = py_int16 (token b)" by simp
  then show "a = b" by (simp add: word_unat_eq_iff)
qed simp

text \<open>
  C4, as the specification states it, fails on both kinds of field it names. In the
  first datagram an explicit-size field declares four value bytes and one is present:
  the slice takes that byte and the two checksum bytes, and the parser returns. In the
  second a plain command is the last token before the checksum: its value is the first
  checksum byte. Both datagrams carry the right checksum.
\<close>

theorem parse_response_accepts_truncated_fields:
  "parse_response (decode [0xFD, 0xFD, 0x02, 0x00, 0x00, 0x06, 0xFE, 0x04, 0x25, 0xAA, 0xD9, 0x01])
     = Inr (Map.empty(''25'' \<mapsto> ''01D9AA'')) \<and>
   verify_checksum (decode [0xFD, 0xFD, 0x02, 0x00, 0x00, 0x06, 0xFE, 0x04, 0x25, 0xAA, 0xD9, 0x01])
     = Inr True \<and>
   parse_response (decode [0xFD, 0xFD, 0x02, 0x00, 0x00, 0x06, 0x25, 0x2D, 0x00])
     = Inr (Map.empty(''25'' \<mapsto> ''2D'')) \<and>
   verify_checksum (decode [0xFD, 0xFD, 0x02, 0x00, 0x00, 0x06, 0x25, 0x2D, 0x00]) = Inr True"
proof -
  have a: "decode [0xFD, 0xFD, 0x02, 0x00, 0x00, 0x06, 0xFE, 0x04, 0x25, 0xAA, 0xD9, 0x01] =
      [''FD'', ''FD'', ''02'', ''00'', ''00'', ''06'', ''FE'', ''04'', ''25'', ''AA'', ''D9'', ''01'']"
    by (simp add: decode_tokens token_def format_02x_byte upper_def upper_char_def hexchar_def)
  have b: "decode [0xFD, 0xFD, 0x02, 0x00, 0x00, 0x06, 0x25, 0x2D, 0x00] =
      [''FD'', ''FD'', ''02'', ''00'', ''00'', ''06'', ''25'', ''2D'', ''00'']"
    by (simp add: decode_tokens token_def format_02x_byte upper_def upper_char_def hexchar_def)
  have i: "py_int16 ''00'' = Inr 0" "py_int16 ''04'' = Inr 4" "py_int16 ''02'' = Inr 2"
    "py_int16 ''06'' = Inr 6" "py_int16 ''FE'' = Inr 254" "py_int16 ''25'' = Inr 37"
    "py_int16 ''AA'' = Inr 170" "py_int16 ''2D'' = Inr 45"
    by (simp_all add: py_int16_def is_hex_def hexval_def)
  have h: "hex_digits 473 = ''1d9''" "hex_digits 45 = ''2d''"
    by (simp_all add: hex_digits.simps hexchar_def)
  have "parse_response
      [''FD'', ''FD'', ''02'', ''00'', ''00'', ''06'', ''FE'', ''04'', ''25'', ''AA'', ''D9'', ''01'']
      = Inr (Map.empty(''25'' \<mapsto> ''01D9AA''))"
    by (simp add: parse_response_def parse_header_def parse_fields.simps list_get_def api_consts i
        Let_def)
  moreover have "verify_checksum
      [''FD'', ''FD'', ''02'', ''00'', ''00'', ''06'', ''FE'', ''04'', ''25'', ''AA'', ''D9'', ''01'']
      = Inr True"
    by (simp add: verify_checksum_def checksum_def list_getitem_def i h format_04X_def zfill_def
        upper_def upper_char_def format_str_02_def replicate_small)
  moreover have "parse_response [''FD'', ''FD'', ''02'', ''00'', ''00'', ''06'', ''25'', ''2D'', ''00'']
      = Inr (Map.empty(''25'' \<mapsto> ''2D''))"
    by (simp add: parse_response_def parse_header_def parse_fields.simps list_get_def api_consts i
        Let_def)
  moreover have "verify_checksum [''FD'', ''FD'', ''02'', ''00'', ''00'', ''06'', ''25'', ''2D'', ''00'']
      = Inr True"
    by (simp add: verify_checksum_def checksum_def list_getitem_def i h format_04X_def zfill_def
        upper_def upper_char_def format_str_02_def replicate_small)
  ultimately show ?thesis
    unfolding a b by simp
qed

text \<open>
  C4, amended. On the tokens of any datagram, from any index and with any mapping built
  so far, the field loop returns a mapping or raises the \<^verbatim>\<open>Exception\<close> of an
  unsupported marker. It has no failure for a truncated field and never raises
  \<^verbatim>\<open>IndexError\<close>: a field that runs past the field region is read from the tokens
  that are there.
\<close>

theorem parse_fields_no_truncation_error:
  "(\<exists>m. parse_fields (decode bs) i data = Inr m) \<or>
   parse_fields (decode bs) i data =
     Inl (Exception ''special function, change base function not implemented'') \<or>
   parse_fields (decode bs) i data =
     Inl (Exception ''special function, high byte not implemented'')"
proof (rule parse_fields_results)
  fix t
  assume "t \<in> set (decode bs)"
  then obtain b where "t = token b"
    by (auto simp: decode_tokens)
  then show "\<exists>n. py_int16 t = Inr n" by simp
qed

subsection \<open>The parser and the credential blocks\<close>

text \<open>One round of the loop, with every subscript resolved.\<close>

lemma parse_fields_stop:
  "\<not> i + 2 < length hl \<Longrightarrow> parse_fields hl i data = Inr data"
  by (subst parse_fields.simps) auto

lemma parse_fields_step:
  assumes "i + 2 < length hl"
  shows "parse_fields hl i data =
    (if hl ! i = RETURN_CHANGE_FUNC then
       Inl (Exception ''special function, change base function not implemented'')
     else if hl ! i = RETURN_INVALID then
       parse_fields hl (i + 2) (data(hl ! (i + 1) \<mapsto> ''''))
     else if hl ! i = RETURN_VALUE_SIZE then
       and_then (py_int16 (hl ! (i + 1))) (\<lambda>n.
       parse_fields hl (i + 3 + n)
         (data(hl ! (i + 2) \<mapsto> concat (rev (hexlist (concat (take n (drop (i + 3) hl))))))))
     else if hl ! i = RETURN_HIGH_BYTE then
       Inl (Exception ''special function, high byte not implemented'')
     else parse_fields hl (i + 2) (data(hl ! i \<mapsto> hl ! (i + 1))))"
  using assms
  by (subst parse_fields.simps [of hl i data]) (simp add: list_get_def Let_def numeral_3_eq_3)

lemma drop_eq_nth:
  assumes "drop k xs = drop k ys" and "k \<le> j" and "j < length xs" and "length xs = length ys"
  shows "xs ! j = ys ! j"
proof -
  have "drop j xs = drop (j - k) (drop k xs)" "drop j ys = drop (j - k) (drop k ys)"
    using assms(2) by simp_all
  with assms(1) have d: "drop j xs = drop j ys" by simp
  from assms have "xs ! j = hd (drop j xs)" "ys ! j = hd (drop j ys)"
    by (simp_all add: hd_drop_conv_nth)
  with d show ?thesis by simp
qed

lemma drop_eq_drop:
  assumes "drop k xs = drop k ys" and "k \<le> j"
  shows "drop j xs = drop j ys"
proof -
  have "drop j xs = drop (j - k) (drop k xs)" "drop j ys = drop (j - k) (drop k ys)"
    using assms(2) by simp_all
  with assms(1) show ?thesis by simp
qed

lemma parse_fields_agree:
  assumes "length xs = length ys" and "drop k xs = drop k ys" and "k \<le> i"
  shows "parse_fields xs i d = parse_fields ys i d"
  using assms(3)
proof (induction "length xs - i" arbitrary: i d rule: less_induct)
  case less
  show ?case
  proof (cases "i + 2 < length xs")
    case False
    with assms(1) show ?thesis by (simp add: parse_fields_stop)
  next
    case True
    with assms(1) have ys: "i + 2 < length ys" by simp
    from less.prems have k: "k \<le> i" "k \<le> i + 1" "k \<le> i + 2" "k \<le> i + 3" by simp_all
    have n: "xs ! i = ys ! i" "xs ! (i + 1) = ys ! (i + 1)" "xs ! (i + 2) = ys ! (i + 2)"
      using True k assms(1) by (simp_all add: drop_eq_nth [OF assms(2)])
    have dr: "drop (i + 3) xs = drop (i + 3) ys"
      using k(4) by (rule drop_eq_drop [OF assms(2)])
    have IH: "parse_fields xs j d' = parse_fields ys j d'" if "i < j" for j d'
    proof (cases "j < length xs")
      case True
      with that less.prems show ?thesis by (intro less.hyps) auto
    next
      case False
      with assms(1) show ?thesis by (simp add: parse_fields_stop)
    qed
    have a: "parse_fields xs (i + 2) d' = parse_fields ys (i + 2) d'" for d'
      by (rule IH) simp
    have b: "parse_fields xs (i + 3 + m) d' = parse_fields ys (i + 3 + m) d'" for m d'
      by (rule IH) simp
    show ?thesis
      unfolding parse_fields_step [OF True] parse_fields_step [OF ys] n dr a b ..
  qed
qed


lemma marker_tokens:
  "RETURN_CHANGE_FUNC = token 0xFC" "RETURN_INVALID = token 0xFD"
  "RETURN_VALUE_SIZE = token 0xFE" "RETURN_HIGH_BYTE = token 0xFF"
  "PACKET_PROTOCOL_TYPE = token 0x02" "FUNC_RESULT = token 0x06"
  by (simp_all add: api_consts token_values)

lemma parse_fields_region:
  assumes "fields_ok fs" and "length cs = 2" and "length cs' = 2" and "length pre = length pre'"
  shows "parse_fields (pre @ map token fs @ cs) (length pre) d =
         parse_fields (pre' @ map token fs @ cs') (length pre') d"
  using assms
proof (induction "length fs" arbitrary: fs pre pre' d rule: less_induct)
  case less
  note ok = less.prems(1) and cs = less.prems(2,3) and pre = less.prems(4)
  show ?case
  proof (cases fs)
    case Nil
    with cs pre show ?thesis by (simp add: parse_fields_stop)
  next
    case (Cons p r)
    let ?A = "pre @ map token fs @ cs" and ?B = "pre' @ map token fs @ cs'"
    from Cons cs have gA: "length pre + 2 < length ?A" by simp
    from Cons cs have gB: "length pre' + 2 < length ?B" by simp
    have p: "?A ! length pre = token p" "?B ! length pre' = token p"
      using Cons by (simp_all add: nth_append)
    consider "p = 0xFC" | "p = 0xFF" "p \<noteq> 0xFC" | "p = 0xFE" | "p \<noteq> 0xFC" "p \<noteq> 0xFF" "p \<noteq> 0xFE"
      by blast
    then show ?thesis
    proof cases
      case 1
      then show ?thesis
        unfolding parse_fields_step [OF gA] parse_fields_step [OF gB] p marker_tokens by simp
    next
      case 2
      then show ?thesis
        unfolding parse_fields_step [OF gA] parse_fields_step [OF gB] p marker_tokens by simp
    next
      case 3
      with ok Cons obtain n c v where r: "r = n # c # v" and n: "unat n \<le> length v"
        and ok': "fields_ok (drop (unat n) v)"
        by (subst (asm) fields_ok.simps) (auto split: list.splits)
      let ?pA = "pre @ map token (p # n # c # take (unat n) v)"
      let ?pB = "pre' @ map token (p # n # c # take (unat n) v)"
      have sA: "?A = ?pA @ map token (drop (unat n) v) @ cs"
        and sB: "?B = ?pB @ map token (drop (unat n) v) @ cs'"
        using Cons r by (simp_all flip: map_append)
      have lA: "length pre + 3 + unat n = length ?pA" and lB: "length pre' + 3 + unat n = length ?pB"
        using n by simp_all
      have q: "?A ! (length pre + 1) = token n" "?B ! (length pre' + 1) = token n"
        "?A ! (length pre + 2) = token c" "?B ! (length pre' + 2) = token c"
        using Cons r by (simp_all add: nth_append)
      have v: "drop (length pre + 3) ?A = map token v @ cs"
        "drop (length pre' + 3) ?B = map token v @ cs'"
        using Cons r by simp_all
      have "parse_fields ?A (length pre + 3 + unat n) d' = parse_fields ?B (length pre' + 3 + unat n) d'"
        for d'
        unfolding lA lB
        unfolding sA sB
        using ok' cs pre Cons r by (intro less.hyps) simp_all
      with 3 n show ?thesis
        unfolding parse_fields_step [OF gA] parse_fields_step [OF gB] p q v marker_tokens
        by simp
    next
      case 4
      with ok Cons obtain v r' where r: "r = v # r'" and ok': "fields_ok r'"
        by (subst (asm) fields_ok.simps) (auto split: list.splits)
      let ?pA = "pre @ map token [p, v]" and ?pB = "pre' @ map token [p, v]"
      have sA: "?A = ?pA @ map token r' @ cs" and sB: "?B = ?pB @ map token r' @ cs'"
        using Cons r by simp_all
      have lA: "length pre + 2 = length ?pA" and lB: "length pre' + 2 = length ?pB"
        by simp_all
      have q: "?A ! (length pre + 1) = token v" "?B ! (length pre' + 1) = token v"
        using Cons r by (simp_all add: nth_append)
      have "parse_fields ?A (length pre + 2) d' = parse_fields ?B (length pre' + 2) d'" for d'
        unfolding lA lB
        unfolding sA sB
        using ok' cs pre Cons r by (intro less.hyps) simp_all
      with 4 show ?thesis
        unfolding parse_fields_step [OF gA] parse_fields_step [OF gB] p q marker_tokens
        by simp
    qed
  qed
qed


lemma parse_header_layout:
  assumes "length idb = unat idlen"
  shows "parse_header (map token ([p0, p1, pt, idlen] @ idb @ pwlen # rest)) =
     (if token p0 @ token p1 \<noteq> PACKET_PREFIX then Inl (Exception ''Invalid packet prefix'')
      else if pt \<noteq> 0x02 then Inl (Exception ''Invalid packet protocol type'')
      else Inr (5 + unat idlen + unat pwlen))"
proof -
  let ?hl = "map token ([p0, p1, pt, idlen] @ idb @ pwlen # rest)"
  have "?hl ! (3 + (1 + unat idlen)) = token pwlen"
    using assms by (simp add: nth_append)
  moreover have "3 + (1 + unat idlen) < length ?hl"
    using assms by simp
  ultimately have gs: "list_get ?hl (3 + (1 + unat idlen)) = Inr (token pwlen)"
    by (simp only: list_get_def if_True)
  have g: "list_get ?hl 2 = Inr (token pt)" "list_get ?hl 3 = Inr (token idlen)"
    by (simp_all add: list_get_def)
  have c: "concat (take 2 ?hl) = token p0 @ token p1"
    by (simp add: numeral_2_eq_2)
  have "parse_header ?hl =
     (if token p0 @ token p1 \<noteq> PACKET_PREFIX then Inl (Exception ''Invalid packet prefix'')
      else if token pt \<noteq> PACKET_PROTOCOL_TYPE
        then Inl (Exception ''Invalid packet protocol type'')
      else Inr (3 + (1 + unat idlen) + (1 + unat pwlen)))"
    by (simp only: parse_header_def g c and_then_Inr py_int16_of_token Let_def gs)
  then show ?thesis
    by (simp add: marker_tokens)
qed

lemma parse_response_layout:
  assumes "length idb = unat idlen" and "length pwb = unat pwlen"
  shows "parse_response (map token ([p0, p1, pt, idlen] @ idb @ pwlen # pwb @ rest)) =
     (case
        (if token p0 @ token p1 \<noteq> PACKET_PREFIX then Inl (Exception ''Invalid packet prefix'')
         else if pt \<noteq> 0x02 then Inl (Exception ''Invalid packet protocol type'')
         else and_then (list_get (map token rest) 0) (\<lambda>t.
           if t \<noteq> FUNC_RESULT then Inl (Exception ''Invalid result function'')
           else parse_fields (map token ([p0, p1, pt, idlen] @ idb @ pwlen # pwb @ rest))
             (5 + unat idlen + unat pwlen + 1) Map.empty))
      of
        Inl (KeyError k) \<Rightarrow>
          Inl (Exception (''Error translating response from fan controller: '' @
            [CHR 0x27] @ k @ [CHR 0x27]))
      | r \<Rightarrow> r)"
proof -
  let ?hl = "map token ([p0, p1, pt, idlen] @ idb @ pwlen # pwb @ rest)"
  have g: "list_get ?hl (5 + unat idlen + unat pwlen) = list_get (map token rest) 0"
    using assms by (cases rest) (simp_all add: list_get_def nth_append)
  consider "token p0 @ token p1 \<noteq> PACKET_PREFIX"
    | "token p0 @ token p1 = PACKET_PREFIX" "pt \<noteq> 0x02"
    | "token p0 @ token p1 = PACKET_PREFIX" "pt = 0x02"
    by blast
  then show ?thesis
  proof cases
    case 1
    then show ?thesis
      unfolding parse_response_def parse_header_layout [OF assms(1)] by simp
  next
    case 2
    then show ?thesis
      unfolding parse_response_def parse_header_layout [OF assms(1)] by simp
  next
    case 3
    with g show ?thesis
      unfolding parse_response_def parse_header_layout [OF assms(1)]
      by simp
  qed
qed

text \<open>
  C10. Take two datagrams with the same prefix, protocol type and declared block
  lengths, whose id blocks and password blocks have the declared lengths and any
  contents. If the rest of the two datagrams is the same, the parser gives the same
  result for both. The checksum covers the credentials, so two datagrams that both
  carry a right checksum differ in their last two bytes as well: if the field stream
  \<open>fs\<close> is well formed, the parser gives the same result whatever those two bytes are.
  The parser skips the blocks by their lengths and never reads a byte of them.
\<close>

theorem parse_response_ignores_credentials:
  assumes "length idA = unat idlen" and "length idB = unat idlen"
    and "length pwA = unat pwlen" and "length pwB = unat pwlen"
  shows "parse_response (decode ([p0, p1, pt, idlen] @ idA @ pwlen # pwA @ rest)) =
         parse_response (decode ([p0, p1, pt, idlen] @ idB @ pwlen # pwB @ rest)) \<and>
         (fields_ok fs \<longrightarrow>
          parse_response
            (decode ([p0, p1, pt, idlen] @ idA @ pwlen # pwA @ func # fs @ [a1, a2])) =
          parse_response
            (decode ([p0, p1, pt, idlen] @ idB @ pwlen # pwB @ func # fs @ [b1, b2])))"
proof (intro conjI impI)
  let ?n = "5 + unat idlen + unat pwlen"
  let ?A = "[p0, p1, pt, idlen] @ idA @ pwlen # pwA @ rest"
  let ?B = "[p0, p1, pt, idlen] @ idB @ pwlen # pwB @ rest"
  have pf: "parse_fields (map token ?A) (?n + 1) d = parse_fields (map token ?B) (?n + 1) d" for d
  proof (rule parse_fields_agree [where k = ?n])
    show "length (map token ?A) = length (map token ?B)"
      using assms by simp
    let ?hA = "map token ([p0, p1, pt, idlen] @ idA @ pwlen # pwA)"
    let ?hB = "map token ([p0, p1, pt, idlen] @ idB @ pwlen # pwB)"
    have l: "length ?hA = ?n" "length ?hB = ?n"
      using assms by simp_all
    have "drop (length ?hA) (?hA @ map token rest) = map token rest"
      "drop (length ?hB) (?hB @ map token rest) = map token rest"
      by (rule append_eq_conv_conj [THEN iffD1, THEN conjunct2, symmetric, OF refl])+
    moreover have "map token ?A = ?hA @ map token rest" "map token ?B = ?hB @ map token rest"
      by simp_all
    ultimately show "drop ?n (map token ?A) = drop ?n (map token ?B)"
      unfolding l by simp
  qed simp
  show "parse_response (decode ?A) = parse_response (decode ?B)"
    unfolding decode_tokens parse_response_layout [OF assms(1,3)]
      parse_response_layout [OF assms(2,4)] pf ..
next
  assume ok: "fields_ok fs"
  let ?n = "5 + unat idlen + unat pwlen"
  let ?A = "[p0, p1, pt, idlen] @ idA @ pwlen # pwA @ func # fs @ [a1, a2]"
  let ?B = "[p0, p1, pt, idlen] @ idB @ pwlen # pwB @ func # fs @ [b1, b2]"
  let ?pA = "map token ([p0, p1, pt, idlen] @ idA @ pwlen # pwA @ [func])"
  let ?pB = "map token ([p0, p1, pt, idlen] @ idB @ pwlen # pwB @ [func])"
  have len: "?n + 1 = length ?pA" "?n + 1 = length ?pB"
    using assms by simp_all
  have sp: "map token ?A = ?pA @ map token fs @ map token [a1, a2]"
    "map token ?B = ?pB @ map token fs @ map token [b1, b2]"
    by simp_all
  have e: "length ?pB = length ?pA"
    using assms by simp
  have F: "parse_fields (?pA @ map token fs @ map token [a1, a2]) (length ?pA) d =
        parse_fields (?pB @ map token fs @ map token [b1, b2]) (length ?pB) d" for d
    using ok assms by (intro parse_fields_region) simp_all
  have pf: "parse_fields (map token ?A) (?n + 1) d = parse_fields (map token ?B) (?n + 1) d"
    for d
    unfolding sp len(1) using F [of d] unfolding e .
  have g: "list_get (map token (func # fs @ [a1, a2])) 0 = Inr (token func)"
    "list_get (map token (func # fs @ [b1, b2])) 0 = Inr (token func)"
    by (simp_all add: list_get_def)
  show "parse_response (decode ?A) = parse_response (decode ?B)"
    unfolding decode_tokens parse_response_layout [OF assms(1,3)]
      parse_response_layout [OF assms(2,4)] pf g ..
qed

theorem parse_response_ignores_credentials_witness:
  "parse_response (decode ([0xFD, 0xFD, 0x02, 0x02] @ [0x41, 0x31] @ 0x01 # [0x70] @
      0x06 # [0x01, 0x01, 0x02, 0x03] @ [0xF4, 0x00])) =
   parse_response (decode ([0xFD, 0xFD, 0x02, 0x02] @ [0x42, 0x32] @ 0x01 # [0x71] @
      0x06 # [0x01, 0x01, 0x02, 0x03] @ [0xF7, 0x00]))"
proof -
  have ok: "fields_ok [0x01, 0x01, 0x02, 0x03]"
    by (simp add: fields_ok.simps)
  have l: "length [0x41, 0x31 :: byte] = unat (0x02 :: byte)"
    "length [0x42, 0x32 :: byte] = unat (0x02 :: byte)"
    "length [0x70 :: byte] = unat (0x01 :: byte)"
    "length [0x71 :: byte] = unat (0x01 :: byte)"
    by simp_all
  from parse_response_ignores_credentials [OF l, where fs = "[0x01, 0x01, 0x02, 0x03]"] ok
  show ?thesis by blast
qed

subsection \<open>Validation before any exchange\<close>

lemma list_index_Inr:
  "x \<in> set ys \<Longrightarrow> \<exists>i. list_index ys x = Inr i \<and> i < length ys \<and> ys ! i = x"
proof (induction ys)
  case Nil
  then show ?case by simp
next
  case (Cons y ys)
  show ?case
  proof (cases "y = x")
    case True
    then show ?thesis by simp
  next
    case False
    with Cons obtain i where "list_index ys x = Inr i" "i < length ys" "ys ! i = x"
      by auto
    with False show ?thesis by simp
  qed
qed



lemma api_speed_rejects: "spd \<notin> set (FAN_SPEEDS K) \<Longrightarrow>
      api_speed exchange K self spd w = (Inl (ValueError (''Invalid fan speed: '' @ spd)), w)"
  by (simp add: api_speed_def)

lemma api_speed_accepts: "spd \<in> set (FAN_SPEEDS K) \<Longrightarrow>
      api_speed exchange K self spd w =
      write_then_status exchange K self (upper (COMMAND_SPEED @ spd)) w"
  by (simp add: api_speed_def)


lemma api_direction_rejects: "dir \<notin> set (map fst (DIRECTIONS K)) \<union> set (map snd (DIRECTIONS K)) \<Longrightarrow>
      api_direction exchange K self dir w =
      (Inl (ValueError (''Invalid fan direction: '' @ dir)), w)"
  by (simp add: api_direction_def)


lemma api_direction_accepts:
  assumes d: "dir \<in> set (map fst (DIRECTIONS K)) \<union> set (map snd (DIRECTIONS K))"
  shows "\<exists>code \<in> set (map fst (DIRECTIONS K)).
         (if dir \<in> set (map snd (DIRECTIONS K)) then (code, dir) \<in> set (DIRECTIONS K)
          else code = dir) \<and>
         api_direction exchange K self dir w =
         write_then_status exchange K self (upper (COMMAND_DIRECTION @ code)) w"
proof -
  let ?D = "DIRECTIONS K"
  show ?thesis
  proof (cases "dir \<in> set (map snd ?D)")
    case True
    from list_index_Inr [OF True]
    obtain i where i: "list_index (map snd ?D) dir = Inr i" "i < length (map snd ?D)"
      "map snd ?D ! i = dir"
      by (elim exE conjE)
    let ?code = "map fst ?D ! i"
    from i(2) have li: "i < length ?D" by simp
    then have mem: "?D ! i \<in> set ?D" by (rule nth_mem)
    from i(3) li have pair: "?D ! i = (?code, dir)"
      by (simp add: prod_eq_iff)
    from mem have in_set: "(?code, dir) \<in> set ?D"
      unfolding pair .
    from li have code: "?code \<in> set (map fst ?D)"
      by (intro nth_mem) simp
    have run: "api_direction exchange K self dir w =
         write_then_status exchange K self (upper (COMMAND_DIRECTION @ ?code)) w"
      unfolding api_direction_def using True i(1) li code
      by (simp add: list_get_def)
    show ?thesis
    proof (rule bexI [OF _ code], intro conjI)
      show "if dir \<in> set (map snd ?D) then (?code, dir) \<in> set ?D else ?code = dir"
        using True in_set by simp
      show "api_direction exchange K self dir w =
         write_then_status exchange K self (upper (COMMAND_DIRECTION @ ?code)) w"
        by (rule run)
    qed
  next
    case False
    with d have key: "dir \<in> set (map fst ?D)" by simp
    have run: "api_direction exchange K self dir w =
         write_then_status exchange K self (upper (COMMAND_DIRECTION @ dir)) w"
      unfolding api_direction_def using False key by simp
    show ?thesis
    proof (rule bexI [OF _ key], intro conjI)
      show "if dir \<in> set (map snd ?D) then (dir, dir) \<in> set ?D else dir = dir"
        using False by simp
      show "api_direction exchange K self dir w =
         write_then_status exchange K self (upper (COMMAND_DIRECTION @ dir)) w"
        by (rule run)
    qed
  qed
qed


text \<open>
  C8. A speed that is not in \<^verbatim>\<open>FAN_SPEEDS\<close> makes \<^verbatim>\<open>speed\<close> raise
  \<^verbatim>\<open>ValueError\<close> with the world as it was: no transport, whatever it does, has been
  run. \<^verbatim>\<open>direction\<close> takes a direction code (a key of \<^verbatim>\<open>DIRECTIONS\<close>) or a direction
  name (a value, translated to its code) and goes on to the write exchange with that
  code; anything else raises \<^verbatim>\<open>ValueError\<close>, again with the world as it was.
\<close>

theorem validation_before_io:
  "(spd \<notin> set (FAN_SPEEDS K) \<longrightarrow>
      api_speed exchange K self spd w = (Inl (ValueError (''Invalid fan speed: '' @ spd)), w)) \<and>
   (spd \<in> set (FAN_SPEEDS K) \<longrightarrow>
      api_speed exchange K self spd w =
      write_then_status exchange K self (upper (COMMAND_SPEED @ spd)) w) \<and>
   (dir \<notin> set (map fst (DIRECTIONS K)) \<union> set (map snd (DIRECTIONS K)) \<longrightarrow>
      api_direction exchange K self dir w =
      (Inl (ValueError (''Invalid fan direction: '' @ dir)), w)) \<and>
   (dir \<in> set (map fst (DIRECTIONS K)) \<union> set (map snd (DIRECTIONS K)) \<longrightarrow>
      (\<exists>code \<in> set (map fst (DIRECTIONS K)).
         (if dir \<in> set (map snd (DIRECTIONS K)) then (code, dir) \<in> set (DIRECTIONS K)
          else code = dir) \<and>
         api_direction exchange K self dir w =
         write_then_status exchange K self (upper (COMMAND_DIRECTION @ code)) w))"
  by (intro conjI impI api_speed_rejects api_speed_accepts api_direction_rejects
      api_direction_accepts)

theorem validation_before_io_witness:
  "api_speed no_reply example_consts \<lparr>host = [], port = 4000, idnum = [], password = []\<rparr> ''09'' []
     = (Inl (ValueError ''Invalid fan speed: 09''), []) \<and>
   api_direction no_reply example_consts \<lparr>host = [], port = 4000, idnum = [], password = []\<rparr>
     ''up'' [] = (Inl (ValueError ''Invalid fan direction: up''), []) \<and>
   api_direction no_reply example_consts \<lparr>host = [], port = 4000, idnum = [], password = []\<rparr>
     ''reverse'' [] =
   write_then_status no_reply example_consts
     \<lparr>host = [], port = 4000, idnum = [], password = []\<rparr> ''B702'' []"
proof -
  let ?self = "\<lparr>host = [], port = 4000, idnum = [], password = []\<rparr>"
  have u: "upper (COMMAND_DIRECTION @ ''02'') = ''B702''"
    by (simp add: api_consts upper_def upper_char_def)
  have s: "''09'' \<notin> set (FAN_SPEEDS example_consts)"
    by (simp add: example_consts_def)
  have d: "''up'' \<notin> set (map fst (DIRECTIONS example_consts)) \<union>
      set (map snd (DIRECTIONS example_consts))"
    by (simp add: example_consts_def)
  have r: "''reverse'' \<in> set (map fst (DIRECTIONS example_consts)) \<union>
      set (map snd (DIRECTIONS example_consts))"
    by (simp add: example_consts_def)
  note t = validation_before_io [where K = example_consts and exchange = no_reply
      and self = ?self and w = "[]"]
  note a0 = t [where spd = "''09''" and dir = "''up''", THEN conjunct1, THEN mp, OF s]
  note b0 = t [where spd = "''09''" and dir = "''up''", THEN conjunct2, THEN conjunct2,
      THEN conjunct1, THEN mp, OF d]
  note c0 = t [where spd = "''09''" and dir = "''reverse''", THEN conjunct2, THEN conjunct2,
      THEN conjunct2, THEN mp, OF r]
  from a0 have a: "api_speed no_reply example_consts ?self ''09'' []
     = (Inl (ValueError ''Invalid fan speed: 09''), [])"
    by simp
  from b0 have b: "api_direction no_reply example_consts ?self ''up'' []
     = (Inl (ValueError ''Invalid fan direction: up''), [])"
    by simp
  from c0 obtain code where c: 
    "(if ''reverse'' \<in> set (map snd (DIRECTIONS example_consts))
      then (code, ''reverse'') \<in> set (DIRECTIONS example_consts) else code = ''reverse'')"
    "api_direction no_reply example_consts ?self ''reverse'' [] =
     write_then_status no_reply example_consts ?self (upper (COMMAND_DIRECTION @ code)) []"
    by (elim bexE conjE)
  from c(1) have "code = ''02''"
    by (simp add: example_consts_def)
  with c(2) u have "api_direction no_reply example_consts ?self ''reverse'' [] =
     write_then_status no_reply example_consts ?self ''B702'' []"
    by (simp only:)
  with a b show ?thesis by (intro conjI)
qed

subsection \<open>The packet encoder\<close>

lemma is_hex_iff: "is_hex c \<longleftrightarrow> c \<in> set ''0123456789abcdefABCDEF''"
proof -
  have "hexval c \<noteq> None \<longleftrightarrow> c \<in> fst ` set (zip ''0123456789abcdefABCDEF''
       [0::nat, 1, 2, 3, 4, 5, 6, 7, 8, 9, 10, 11, 12, 13, 14, 15, 10, 11, 12, 13, 14, 15])"
    unfolding hexval_def by (simp only: map_of_eq_None_iff not_not)
  then show ?thesis
    by (simp add: is_hex_def)
qed

lemma is_hex_upper_char:
  assumes "is_hex c"
  shows "is_hex (upper_char c)"
proof -
  have "\<forall>c \<in> set ''0123456789abcdefABCDEF''. hexval (upper_char c) \<noteq> None"
    by (simp add: upper_char_def hexval_def)
  moreover from assms have "c \<in> set ''0123456789abcdefABCDEF''"
    by (simp only: is_hex_iff)
  ultimately have "hexval (upper_char c) \<noteq> None"
    by (rule bspec)
  then show ?thesis
    unfolding is_hex_def .
qed

lemma is_hex_hexchar: "d < 16 \<Longrightarrow> is_hex (hexchar d)"
  by (simp add: is_hex_def hexval_hexchar)

lemma is_hex_hex_digits: "list_all is_hex (hex_digits n)"
proof (induction n rule: hex_digits.induct)
  case (1 n)
  show ?case
  proof (cases "n < 16")
    case True
    then show ?thesis by (simp add: hex_digits.simps [of n] is_hex_hexchar)
  next
    case False
    with 1 show ?thesis by (simp add: hex_digits.simps [of n] is_hex_hexchar)
  qed
qed

lemma is_hex_zero: "is_hex CHR ''0''"
  by (simp add: is_hex_iff)

lemma is_hex_format_02x: "list_all is_hex (format_02x n)"
proof -
  have "list_all is_hex (replicate k CHR ''0'')" for k
    by (simp add: list_all_iff is_hex_zero)
  then show ?thesis
    by (simp add: format_02x_def zfill_def is_hex_hex_digits)
qed

lemma is_hex_bytes_hex: "list_all is_hex (bytes_hex bs)"
  by (induction bs) (simp_all add: bytes_hex_def is_hex_format_02x)

lemma is_hex_upper: "list_all is_hex s \<Longrightarrow> list_all is_hex (upper s)"
  by (simp add: upper_def list_all_iff is_hex_upper_char)

lemma hexlist_chunks: "t \<in> set (hexlist s) \<Longrightarrow> t \<noteq> [] \<and> set t \<subseteq> set s"
  by (induction s arbitrary: t rule: hexlist.induct) auto

lemma py_int16_hex: "s \<noteq> [] \<Longrightarrow> list_all is_hex s \<Longrightarrow> \<exists>n. py_int16 s = Inr n"
  by (simp add: py_int16_def)

lemma checksum_loop_total:
  "\<forall>t \<in> set ts. \<exists>n. py_int16 t = Inr n \<Longrightarrow> \<exists>c. checksum_loop ts acc = Inr c"
proof (induction ts arbitrary: acc)
  case Nil
  then show ?case by simp
next
  case (Cons t ts)
  then obtain n where "py_int16 t = Inr n" by auto
  with Cons show ?case by simp
qed

lemma checksum_total:
  assumes "list_all is_hex s"
  shows "\<exists>c. checksum s = Inr c"
proof -
  have "\<exists>n. py_int16 t = Inr n" if "t \<in> set (drop 2 (hexlist s))" for t
  proof -
    from that have "t \<in> set (hexlist s)" by (rule in_set_dropD)
    then have "t \<noteq> []" "set t \<subseteq> set s" by (simp_all add: hexlist_chunks)
    with assms show ?thesis
      by (intro py_int16_hex) (auto simp: list_all_iff)
  qed
  then have "\<forall>t \<in> set (drop 2 (hexlist s)). \<exists>n. py_int16 t = Inr n"
    by simp
  from checksum_loop_total [OF this, of 0]
  obtain c where "checksum_loop (drop 2 (hexlist s)) 0 = Inr c"
    by (elim exE)
  then show ?thesis
    by (simp add: checksum_def Let_def)
qed

lemma utf8_char_encodable: "encodable c \<Longrightarrow> \<exists>bs. utf8_char c = Inr bs"
  by (auto simp: encodable_def utf8_char_def)

lemma encode_utf8_total: "list_all encodable s \<Longrightarrow> \<exists>bs. encode_utf8 s = Inr bs"
proof (induction s)
  case Nil
  then show ?case by simp
next
  case (Cons c s)
  from Cons.prems have e: "encodable c" "list_all encodable s" by simp_all
  from utf8_char_encodable [OF e(1)] obtain a where "utf8_char c = Inr a"
    by (elim exE)
  moreover from Cons.IH [OF e(2)] obtain b where "encode_utf8 s = Inr b"
    by (elim exE)
  ultimately show ?case by simp
qed

lemma encode_utf8_ascii: "\<forall>c \<in> set s. c < 128 \<Longrightarrow> encode_utf8 s = Inr (map of_nat s)"
  by (induction s) (simp_all add: utf8_char_def)

lemma login_packet_eq:
  assumes "encode_utf8 (idnum self) = Inr a" and "encode_utf8 (password self) = Inr b"
  shows "login_packet self =
    Inr (upper (PACKET_PREFIX @ PACKET_PROTOCOL_TYPE @ PACKET_SIZE_ID @ bytes_hex a @
                format_02x (length (password self)) @ bytes_hex b))"
  using assms by (simp add: login_packet_def Let_def)

lemma upper_char_idem: "upper_char (upper_char c) = upper_char c"
proof (cases "map_of (zip ''abcdefghijklmnopqrstuvwxyz'' ''ABCDEFGHIJKLMNOPQRSTUVWXYZ'') c")
  case None
  then show ?thesis by (simp add: upper_char_def)
next
  case (Some u)
  then have "(c, u) \<in> set (zip ''abcdefghijklmnopqrstuvwxyz'' ''ABCDEFGHIJKLMNOPQRSTUVWXYZ'')"
    by (rule map_of_SomeD)
  then have "u \<in> set ''ABCDEFGHIJKLMNOPQRSTUVWXYZ''"
    by (rule set_zip_rightD)
  moreover have "\<forall>u \<in> set ''ABCDEFGHIJKLMNOPQRSTUVWXYZ''. upper_char u = u"
    by (simp add: upper_char_def)
  ultimately have "upper_char u = u"
    by (rule bspec [rotated])
  with Some show ?thesis by (simp add: upper_char_def)
qed

lemma upper_idem: "upper (upper s) = upper s"
  by (simp add: upper_def upper_char_idem)

lemma upper_append: "upper (s @ t) = upper s @ upper t"
  by (simp add: upper_def)

text \<open>
  C7, amended. \<^verbatim>\<open>_login_packet\<close> and \<^verbatim>\<open>_build_packet\<close> check no length. For
  credentials of any length whose code points can be encoded, and a function and
  payload in hex digits, the packet is built: the fixed bytes, all bytes of the id, the
  character count of the password in at least two hex digits, all bytes of the
  password, the function and payload, and a checksum.
\<close>

theorem build_packet_no_length_check:
  assumes "list_all encodable (idnum self)" and "list_all encodable (password self)"
    and "list_all is_hex (func @ data)"
  shows "\<exists>id_bytes password_bytes c.
    encode_utf8 (idnum self) = Inr id_bytes \<and>
    encode_utf8 (password self) = Inr password_bytes \<and>
    build_packet self func data =
      Inr (upper (PACKET_PREFIX @ PACKET_PROTOCOL_TYPE @ PACKET_SIZE_ID @ bytes_hex id_bytes @
             format_02x (length (password self)) @ bytes_hex password_bytes @ func @ data) @ c)"
proof -
  from encode_utf8_total [OF assms(1)] obtain a where a: "encode_utf8 (idnum self) = Inr a"
    by (elim exE)
  from encode_utf8_total [OF assms(2)] obtain b where b: "encode_utf8 (password self) = Inr b"
    by (elim exE)
  let ?inner = "PACKET_PREFIX @ PACKET_PROTOCOL_TYPE @ PACKET_SIZE_ID @ bytes_hex a @
      format_02x (length (password self)) @ bytes_hex b"
  let ?body = "PACKET_PREFIX @ PACKET_PROTOCOL_TYPE @ PACKET_SIZE_ID @ bytes_hex a @
      format_02x (length (password self)) @ bytes_hex b @ func @ data"
  have u: "upper (upper ?inner @ func @ data) = upper ?body"
    by (simp add: upper_append upper_idem)
  have "list_all is_hex ?inner"
    by (simp add: api_consts is_hex_bytes_hex is_hex_format_02x is_hex_iff)
  with assms(3) have "list_all is_hex (upper ?body)"
    by (intro is_hex_upper) simp
  from checksum_total [OF this] obtain c where c: "checksum (upper ?body) = Inr c"
    by (elim exE)
  have bp: "build_packet self func data = Inr (upper ?body @ c)"
    unfolding build_packet_def login_packet_eq [OF a b] and_then_Inr Let_def u c ..
  show ?thesis
    by (rule exI [of _ a], rule exI [of _ b], rule exI [of _ c], intro conjI a b bp)
qed

subsection \<open>From the packet text to the tokens of its bytes\<close>

lemma hex_digits_chars: "\<forall>c \<in> set (hex_digits n). \<exists>d<16. c = hexchar d"
proof (induction n rule: hex_digits.induct)
  case (1 n)
  show ?case
  proof (cases "n < 16")
    case True
    then show ?thesis by (auto simp: hex_digits.simps [of n])
  next
    case False
    have "\<exists>d<16. hexchar (n mod 16) = hexchar d"
      by (rule exI [of _ "n mod 16"]) simp
    with False 1 show ?thesis
      by (auto simp: hex_digits.simps [of n])
  qed
qed

lemma format_04X_chars: "set (format_04X n) \<subseteq> upper_hex"
proof -
  have "CHR ''0'' = upper_char (hexchar 0)"
    by (simp add: upper_char_def hexchar_def)
  then have "CHR ''0'' \<in> upper_hex"
    by (auto simp: upper_hex_def)
  moreover have "set (upper (hex_digits n)) \<subseteq> upper_hex"
    using hex_digits_chars [of n] by (auto simp: upper_def upper_hex_def)
  ultimately show ?thesis
    by (auto simp: format_04X_def zfill_def)
qed

lemma length_format_04X: "4 \<le> length (format_04X n)"
  by (simp add: format_04X_def zfill_def)

lemma two_upper_hex_token:
  assumes "x \<in> upper_hex" and "y \<in> upper_hex"
  shows "\<exists>b. [x, y] = token b"
proof -
  from assms obtain dx dy where d: "dx < 16" "dy < 16"
    and x: "x = upper_char (hexchar dx)" and y: "y = upper_char (hexchar dy)"
    by (auto simp: upper_hex_def)
  let ?n = "16 * dx + dy"
  from d have n: "?n < 256" by simp
  then have u: "unat (of_nat ?n :: byte) = ?n"
    unfolding unat_of_nat by simp
  from d have "?n div 16 = dx" "?n mod 16 = dy" by simp_all
  with n have "token (of_nat ?n) = [x, y]"
    unfolding token_def u by (simp add: upper_format_02x_byte x y)
  then show ?thesis by metis
qed

lemma checksum_text_tokens:
  "\<exists>c1 c2. format_str_02 (take 2 (drop 2 (format_04X n))) @
            format_str_02 (take 2 (format_04X n)) = token c1 @ token c2"
proof -
  from length_format_04X [of n] obtain a b c d r where f: "format_04X n = a # b # c # d # r"
    by (cases "format_04X n"; cases "tl (format_04X n)"; cases "tl (tl (format_04X n))";
        cases "tl (tl (tl (format_04X n)))") auto
  with format_04X_chars [of n] have "a \<in> upper_hex" "b \<in> upper_hex" "c \<in> upper_hex" "d \<in> upper_hex"
    by auto
  then obtain c1 c2 where "[c, d] = token c1" "[a, b] = token c2"
    using two_upper_hex_token by metis
  then have "format_str_02 (take 2 (drop 2 (format_04X n))) @
            format_str_02 (take 2 (format_04X n)) = token c1 @ token c2"
    unfolding f by (simp add: format_str_02_def numeral_2_eq_2)
  then show ?thesis by (intro exI)
qed

lemma not_space_upper_hexchar: "d < 16 \<Longrightarrow> \<not> is_space (upper_char (hexchar d))"
  by (erule digit_cases) (simp_all add: is_space_def upper_char_def hexchar_def)

lemma bytes_fromhex_tokens: "bytes_fromhex (concat (map token bs)) = Inr bs"
proof (induction bs)
  case Nil
  then show ?case by simp
next
  case (Cons b bs)
  let ?hi = "unat b div 16" and ?lo = "unat b mod 16"
  have hi: "?hi < 16" using unat_byte_less [of b] by arith
  have lo: "?lo < 16" by simp
  have t: "token b = [upper_char (hexchar ?hi), upper_char (hexchar ?lo)]"
    by (simp add: token_def upper_format_02x_byte unat_byte_less)
  have "(of_nat (16 * ?hi + ?lo) :: byte) = b" by simp
  with Cons show ?case
    by (simp add: t not_space_upper_hexchar [OF hi] hexval_upper_hexchar [OF hi]
        hexval_upper_hexchar [OF lo])
qed


lemma bytes_hex_append: "bytes_hex (a @ b) = bytes_hex a @ bytes_hex b"
  by (simp add: bytes_hex_def)

lemma upper_tokens: "upper (bytes_hex bs) = concat (map token bs)"
  by (simp add: upper_bytes_hex token_def [abs_def])

lemma header_text:
  "upper PACKET_PREFIX = token 0xFD @ token 0xFD"
  "upper PACKET_PROTOCOL_TYPE = token 0x02"
  "upper PACKET_SIZE_ID = token 0x10"
  by (simp_all add: api_consts token_values upper_def upper_char_def)

lemma upper_format_02x_token: "n < 256 \<Longrightarrow> upper (format_02x n) = token (of_nat n)"
  unfolding token_def unat_of_nat by simp

lemma upper_token: "upper (token b) = token b"
  by (simp add: token_def upper_idem)

lemma upper_concat_tokens: "upper (concat (map token bs)) = concat (map token bs)"
  by (simp only: upper_tokens [symmetric] upper_idem)

lemma build_packet_bytes:
  assumes "encode_utf8 (idnum self) = Inr a"
    and "\<forall>c \<in> set (password self). c < 128" and "length (password self) \<le> 255"
  shows "build_packet self (bytes_hex [f]) (bytes_hex payload) =
    and_then
      (checksum (concat (map token ([0xFD, 0xFD, 0x02, 0x10] @ a @
         of_nat (length (password self)) # map of_nat (password self) @ f # payload))))
      (\<lambda>c. Inr (concat (map token ([0xFD, 0xFD, 0x02, 0x10] @ a @
         of_nat (length (password self)) # map of_nat (password self) @ f # payload)) @ c))"
proof -
  let ?b = "map of_nat (password self) :: byte list"
  let ?n = "length (password self)"
  have b: "encode_utf8 (password self) = Inr ?b"
    using assms(2) by (rule encode_utf8_ascii)
  from assms(3) have n: "upper (format_02x ?n) = token (of_nat ?n)"
    by (intro upper_format_02x_token) simp
  have "upper (upper (PACKET_PREFIX @ PACKET_PROTOCOL_TYPE @ PACKET_SIZE_ID @ bytes_hex a @
          format_02x ?n @ bytes_hex ?b) @ bytes_hex [f] @ bytes_hex payload) =
        token 0xFD @ token 0xFD @ token 0x02 @ token 0x10 @ concat (map token a) @
        token (of_nat ?n) @ concat (map token ?b) @ concat (map token [f]) @
        concat (map token payload)"
    by (simp only: upper_append upper_idem upper_tokens header_text n upper_token
        upper_concat_tokens append_assoc)
  also have "\<dots> = concat (map token ([0xFD, 0xFD, 0x02, 0x10] @ a @ of_nat ?n # ?b @ f # payload))"
    by simp
  finally show ?thesis
    unfolding build_packet_def login_packet_eq [OF assms(1) b] and_then_Inr Let_def
    by (simp only:)
qed

lemma checksum_tokens:
  "\<exists>c1 c2. checksum (concat (map token bs)) = Inr (token c1 @ token c2)"
proof -
  from checksum_text_tokens [of "sum_list (map unat (drop 2 bs))"]
  obtain c1 c2 where
    "format_str_02 (take 2 (drop 2 (format_04X (sum_list (map unat (drop 2 bs)))))) @
     format_str_02 (take 2 (format_04X (sum_list (map unat (drop 2 bs))))) = token c1 @ token c2"
    by (elim exE)
  then have "checksum (upper (bytes_hex bs)) = Inr (token c1 @ token c2)"
    by (simp only: checksum_bytes)
  then show ?thesis
    unfolding upper_tokens by (intro exI)
qed

lemma list_getitem_last2:
  "list_getitem (xs @ [a, b]) (- 2) = Inr a" "list_getitem (xs @ [a, b]) (- 1) = Inr b"
proof -
  have i: "nat (int (length (xs @ [a, b])) + - 2) = length xs"
    "nat (int (length (xs @ [a, b])) + - 1) = Suc (length xs)"
    by simp_all
  have c: "- (- 2) \<le> int (length (xs @ [a, b]))" "- (- 1) \<le> int (length (xs @ [a, b]))"
    by simp_all
  show "list_getitem (xs @ [a, b]) (- 2) = Inr a"
    unfolding list_getitem_def using c(1) by (simp only: i) simp
  show "list_getitem (xs @ [a, b]) (- 1) = Inr b"
    unfolding list_getitem_def using c(2) by (simp only: i) (simp add: nth_append)
qed

lemma verify_checksum_tokens:
  assumes "checksum (concat (map token bs)) = Inr (token c1 @ token c2)"
  shows "verify_checksum (map token (bs @ [c1, c2])) = Inr True"
proof -
  let ?hl = "map token (bs @ [c1, c2])"
  have t: "take (length ?hl - 2) ?hl = map token bs"
    by simp
  have g: "list_getitem ?hl (- 2) = Inr (token c1)" "list_getitem ?hl (- 1) = Inr (token c2)"
    unfolding map_append by (simp_all add: list_getitem_last2)
  show ?thesis
    unfolding verify_checksum_def t g assms by simp
qed


lemma prefix_tokens: "PACKET_PREFIX = token 0xFD @ token 0xFD"
  by (simp add: api_consts token_values)

lemma wire_bytes:
  assumes "encode_utf8 (idnum self) = Inr a"
    and "\<forall>c \<in> set (password self). c < 128" and "length (password self) \<le> 255"
  shows "\<exists>c1 c2.
    checksum (concat (map token ([0xFD, 0xFD, 0x02, 0x10] @ a @
      of_nat (length (password self)) # map of_nat (password self) @ f # payload))) =
      Inr (token c1 @ token c2) \<and>
    and_then (build_packet self (bytes_hex [f]) (bytes_hex payload)) bytes_fromhex =
      Inr (([0xFD, 0xFD, 0x02, 0x10] @ a @
        of_nat (length (password self)) # map of_nat (password self) @ f # payload) @ [c1, c2])"
proof -
  let ?B = "[0xFD, 0xFD, 0x02, 0x10] @ a @
      of_nat (length (password self)) # map of_nat (password self) @ f # payload"
  from checksum_tokens [of ?B] obtain c1 c2
    where c: "checksum (concat (map token ?B)) = Inr (token c1 @ token c2)"
    by (elim exE)
  have "concat (map token ?B) @ token c1 @ token c2 = concat (map token (?B @ [c1, c2]))"
    by simp
  then have "build_packet self (bytes_hex [f]) (bytes_hex payload) =
      Inr (concat (map token (?B @ [c1, c2])))"
    unfolding build_packet_bytes [OF assms] c and_then_Inr by (simp only:)
  then have "and_then (build_packet self (bytes_hex [f]) (bytes_hex payload)) bytes_fromhex =
      Inr (?B @ [c1, c2])"
    by (simp only: and_then_Inr bytes_fromhex_tokens)
  with c show ?thesis by (intro exI conjI)
qed

text \<open>
  C1, amended. The encoder writes the fixed byte \<^verbatim>\<open>10\<close> where the parser reads the
  length of the id block, and the character count of the password where the parser
  reads the length of the password block. For credentials whose id encodes to exactly
  16 bytes and whose password is at most 255 ASCII characters, and for every function
  byte and payload, the packet is built and converted to bytes, and its tokens pass the
  parser's header: the prefix and protocol type match, the two blocks are skipped, the
  index after them is that of the function byte, and the checksum is verified.
\<close>

theorem encode_decode_roundtrip:
  assumes "encode_utf8 (idnum self) = Inr id_bytes" and "length id_bytes = 16"
    and "\<forall>c \<in> set (password self). c < 128" and "length (password self) \<le> 255"
  shows "\<exists>wire.
    and_then (build_packet self (bytes_hex [func]) (bytes_hex payload)) bytes_fromhex = Inr wire \<and>
    parse_header (decode wire) = Inr (21 + length (password self)) \<and>
    list_get (decode wire) (21 + length (password self)) = Inr (token func) \<and>
    verify_checksum (decode wire) = Inr True"
proof -
  let ?n = "length (password self)"
  let ?pw = "map of_nat (password self) :: byte list"
  let ?B = "[0xFD, 0xFD, 0x02, 0x10] @ id_bytes @ of_nat ?n # ?pw @ func # payload"
  from wire_bytes [OF assms(1,3,4), of func payload] obtain c1 c2
    where c: "checksum (concat (map token ?B)) = Inr (token c1 @ token c2)"
      and w: "and_then (build_packet self (bytes_hex [func]) (bytes_hex payload)) bytes_fromhex =
        Inr (?B @ [c1, c2])"
    by (elim exE conjE)
  from assms(4) have n: "unat (of_nat ?n :: byte) = ?n"
    unfolding unat_of_nat by simp
  have l: "length id_bytes = unat (0x10 :: byte)"
    using assms(2) by simp
  have sp: "?B @ [c1, c2] =
      [0xFD, 0xFD, 0x02, 0x10] @ id_bytes @ of_nat ?n # (?pw @ func # payload @ [c1, c2])"
    by simp
  have h: "parse_header (decode (?B @ [c1, c2])) = Inr (21 + ?n)"
    unfolding decode_tokens sp parse_header_layout [OF l]
    by (simp add: prefix_tokens n)
  have "map token (?B @ [c1, c2]) ! (21 + ?n) = token func"
    using assms(2) by (simp add: nth_append)
  moreover have "21 + ?n < length (map token (?B @ [c1, c2]))"
    using assms(2) by simp
  ultimately have g: "list_get (decode (?B @ [c1, c2])) (21 + ?n) = Inr (token func)"
    unfolding decode_tokens list_get_def by (simp only: if_True)
  have v: "verify_checksum (decode (?B @ [c1, c2])) = Inr True"
    unfolding decode_tokens by (rule verify_checksum_tokens [OF c])
  show ?thesis
    by (rule exI [of _ "?B @ [c1, c2]"]) (intro conjI w h g v)
qed

subsection \<open>The encoder on example clients\<close>

lemma spec_example_bytes:
  "encode_utf8 (idnum spec_example) = Inr [0x41, 0x31]"
  "encode_utf8 (password spec_example) = Inr [0x70, 0x77]"
  by (simp_all add: spec_example_def py_str_def utf8_char_def)

lemma small_tokens:
  "token 0x41 = ''41''" "token 0x31 = ''31''" "token 0x70 = ''70''" "token 0x77 = ''77''"
  "token 0x01 = ''01''" "token 0x71 = ''71''"
  by (simp_all add: token_def format_02x_byte upper_def upper_char_def hexchar_def)

text \<open>
  C2, as the specification states it, fails on its own example: between the byte
  \<^verbatim>\<open>10\<close> and the id bytes \<^verbatim>\<open>4131\<close> the encoder writes no id length.
\<close>

theorem login_packet_has_no_id_length:
  "login_packet spec_example = Inr ''FDFD02104131027077'' \<and>
   spec_login_header spec_example = Inr ''FDFD0210024131027077''"
proof -
  have l: "length (password spec_example) = 2"
    by (simp add: spec_example_def py_str_def)
  have f: "upper (format_02x 2) = ''02''"
    by (simp add: format_02x_byte upper_def upper_char_def hexchar_def)
  from f have f': "upper (format_02x (Suc (Suc 0))) = ''02''"
    by (simp only: numeral_2_eq_2)
  have "login_packet spec_example = Inr ''FDFD02104131027077''"
    unfolding login_packet_eq [OF spec_example_bytes] l
    by (simp add: upper_append header_text upper_tokens f token_values small_tokens)
  moreover have "spec_login_header spec_example = Inr ''FDFD0210024131027077''"
    unfolding spec_login_header_def spec_example_bytes and_then_Inr
    by (simp add: upper_append header_text upper_tokens f' token_values small_tokens)
  ultimately show ?thesis ..
qed


text \<open>
  C2, amended. The header that \<^verbatim>\<open>_login_packet\<close> builds is the prefix \<^verbatim>\<open>FDFD\<close>,
  the protocol type \<^verbatim>\<open>02\<close>, the fixed byte \<^verbatim>\<open>10\<close>, the UTF-8 bytes of the id with
  no length byte of their own, one byte holding the length of the password, and the
  UTF-8 bytes of the password. This is proved for a password of at most 255 ASCII
  characters, where the character count that the encoder writes is the byte count.
\<close>

theorem login_packet_layout:
  assumes "encode_utf8 (idnum self) = Inr id_bytes"
    and "\<forall>c \<in> set (password self). c < 128" and "length (password self) \<le> 255"
  shows "\<exists>password_bytes.
    encode_utf8 (password self) = Inr password_bytes \<and>
    unat (of_nat (length password_bytes) :: byte) = length password_bytes \<and>
    login_packet self =
      Inr (concat (map token ([0xFD, 0xFD, 0x02, 0x10] @ id_bytes @
             of_nat (length password_bytes) # password_bytes)))"
proof -
  let ?b = "map of_nat (password self) :: byte list"
  let ?n = "length (password self)"
  have b: "encode_utf8 (password self) = Inr ?b"
    using assms(2) by (rule encode_utf8_ascii)
  from assms(3) have n: "upper (format_02x ?n) = token (of_nat ?n)"
    by (intro upper_format_02x_token) simp
  from assms(3) have u: "unat (of_nat (length ?b) :: byte) = length ?b"
    unfolding unat_of_nat by simp
  have "upper (PACKET_PREFIX @ PACKET_PROTOCOL_TYPE @ PACKET_SIZE_ID @ bytes_hex id_bytes @
          format_02x ?n @ bytes_hex ?b) =
        token 0xFD @ token 0xFD @ token 0x02 @ token 0x10 @ concat (map token id_bytes) @
        token (of_nat ?n) @ concat (map token ?b)"
    by (simp only: upper_append upper_tokens header_text n append_assoc)
  also have "\<dots> = concat (map token ([0xFD, 0xFD, 0x02, 0x10] @ id_bytes @
      of_nat (length ?b) # ?b))"
    by simp
  finally have "login_packet self = Inr (concat (map token ([0xFD, 0xFD, 0x02, 0x10] @
      id_bytes @ of_nat (length ?b) # ?b)))"
    unfolding login_packet_eq [OF assms(1) b] by (simp only:)
  with b u show ?thesis
    by (intro exI [of _ ?b] conjI)
qed

lemma device_example_bytes:
  "encode_utf8 (idnum device_example) =
     Inr [0x30, 0x31, 0x32, 0x33, 0x34, 0x35, 0x36, 0x37, 0x38, 0x39,
          0x41, 0x42, 0x43, 0x44, 0x45, 0x46]"
  "encode_utf8 (password device_example) = Inr [0x31, 0x31, 0x31, 0x31]"
  by (simp_all add: device_example_def py_str_def utf8_char_def)

lemma device_example_password:
  "\<forall>c \<in> set (password device_example). c < 128" "length (password device_example) \<le> 255"
  by (simp_all add: device_example_def py_str_def)

theorem login_packet_layout_witness:
  "login_packet device_example =
     Inr (concat (map token ([0xFD, 0xFD, 0x02, 0x10] @
       [0x30, 0x31, 0x32, 0x33, 0x34, 0x35, 0x36, 0x37, 0x38, 0x39,
        0x41, 0x42, 0x43, 0x44, 0x45, 0x46] @ [0x04, 0x31, 0x31, 0x31, 0x31])))"
proof -
  from login_packet_layout [OF device_example_bytes(1) device_example_password]
  obtain pw where e: "encode_utf8 (password device_example) = Inr pw"
    and p: "login_packet device_example =
      Inr (concat (map token ([0xFD, 0xFD, 0x02, 0x10] @
        [0x30, 0x31, 0x32, 0x33, 0x34, 0x35, 0x36, 0x37, 0x38, 0x39,
         0x41, 0x42, 0x43, 0x44, 0x45, 0x46] @ of_nat (length pw) # pw)))"
    by (elim exE conjE)
  from e have pw: "pw = [0x31, 0x31, 0x31, 0x31]"
    by (simp add: device_example_bytes(2))
  from p show ?thesis
    unfolding pw by simp
qed

theorem encode_decode_roundtrip_witness:
  "\<exists>wire.
    and_then (build_packet device_example (bytes_hex [0x01]) (bytes_hex [0x01, 0x02]))
      bytes_fromhex = Inr wire \<and>
    parse_header (decode wire) = Inr 25 \<and>
    list_get (decode wire) 25 = Inr (token 0x01) \<and>
    verify_checksum (decode wire) = Inr True"
proof -
  have l: "length (password device_example) = 4"
    by (simp add: device_example_def py_str_def)
  from encode_decode_roundtrip [OF device_example_bytes(1) _ device_example_password,
      of "0x01" "[0x01, 0x02]"]
  show ?thesis
    unfolding l by simp
qed


lemma take_two: "take 2 (a # b # xs) = [a, b]"
  by (simp add: numeral_2_eq_2)

lemma read_command_text:
  "FUNC_READ = bytes_hex [0x01]" "COMMAND_ON_OFF @ COMMAND_SPEED = bytes_hex [0x01, 0x02]"
  by (simp_all add: api_consts bytes_hex_def format_02x_byte hexchar_def)

lemma spec_example_password:
  "\<forall>c \<in> set (password spec_example). c < 128" "length (password spec_example) \<le> 255"
  "password spec_example = [112, 119]"
  by (simp_all add: spec_example_def py_str_def)

text \<open>
  C1, as the specification states it, fails on the specification's example. The id
  \<^verbatim>\<open>A1\<close> has two bytes, the parser reads the fixed byte \<^verbatim>\<open>10\<close> as an id length of
  16, and the password block is looked for at index 20 of 14 tokens.
\<close>

theorem roundtrip_fails_for_short_id:
  "and_then (build_packet spec_example FUNC_READ (COMMAND_ON_OFF @ COMMAND_SPEED)) bytes_fromhex =
     Inr [0xFD, 0xFD, 0x02, 0x10, 0x41, 0x31, 0x02, 0x70, 0x77, 0x01, 0x01, 0x02, 0x71, 0x01] \<and>
   parse_header (decode
     [0xFD, 0xFD, 0x02, 0x10, 0x41, 0x31, 0x02, 0x70, 0x77, 0x01, 0x01, 0x02, 0x71, 0x01]) =
     Inl IndexError"
proof -
  let ?B = "[0xFD, 0xFD, 0x02, 0x10, 0x41, 0x31, 0x02, 0x70, 0x77, 0x01, 0x01, 0x02] :: byte list"
  have s: "sum_list (map unat (drop 2 ?B)) = 369"
    by simp
  have h: "hex_digits 369 = ''171''"
    by (simp add: hex_digits.simps hexchar_def)
  have "checksum (upper (bytes_hex ?B)) = Inr ''7101''"
    unfolding checksum_bytes s
    by (simp add: format_04X_def h upper_def upper_char_def zfill_def format_str_02_def
        replicate_small)
  then have c: "checksum (concat (map token ?B)) = Inr (token 0x71 @ token 0x01)"
    unfolding upper_tokens by (simp add: small_tokens)
  have "build_packet spec_example (bytes_hex [0x01]) (bytes_hex [0x01, 0x02]) =
      and_then (checksum (concat (map token ?B))) (\<lambda>c. Inr (concat (map token ?B) @ c))"
    unfolding build_packet_bytes [OF spec_example_bytes(1) spec_example_password(1,2)]
    by (simp add: spec_example_password(3))
  then have "build_packet spec_example (bytes_hex [0x01]) (bytes_hex [0x01, 0x02]) =
      Inr (concat (map token (?B @ [0x71, 0x01])))"
    unfolding c by simp
  then have "and_then (build_packet spec_example (bytes_hex [0x01]) (bytes_hex [0x01, 0x02]))
      bytes_fromhex = Inr (?B @ [0x71, 0x01])"
    by (simp only: and_then_Inr bytes_fromhex_tokens)
  then have a: "and_then (build_packet spec_example FUNC_READ (COMMAND_ON_OFF @ COMMAND_SPEED))
      bytes_fromhex =
      Inr [0xFD, 0xFD, 0x02, 0x10, 0x41, 0x31, 0x02, 0x70, 0x77, 0x01, 0x01, 0x02, 0x71, 0x01]"
    unfolding read_command_text by simp
  have b: "parse_header (decode
     [0xFD, 0xFD, 0x02, 0x10, 0x41, 0x31, 0x02, 0x70, 0x77, 0x01, 0x01, 0x02, 0x71, 0x01]) =
     Inl IndexError"
    unfolding decode_tokens
    by (simp add: parse_header_def list_get_def prefix_tokens marker_tokens Let_def
        take_two)
  from a b show ?thesis ..
qed

lemma long_id_example_fields:
  "encode_utf8 (idnum long_id_example) = Inr (replicate 256 0x41)"
  "\<forall>c \<in> set (password long_id_example). c < 128" "length (password long_id_example) \<le> 255"
  "password long_id_example = [112, 119]"
proof -
  have "\<forall>c \<in> set (idnum long_id_example). c < 128"
    by (simp add: long_id_example_def)
  then have "encode_utf8 (idnum long_id_example) = Inr (map of_nat (idnum long_id_example))"
    by (rule encode_utf8_ascii)
  then show "encode_utf8 (idnum long_id_example) = Inr (replicate 256 0x41)"
    by (simp add: long_id_example_def)
qed (simp_all add: long_id_example_def py_str_def)

text \<open>
  C7, as the specification states it, fails on an id of 256 characters: its 256 bytes
  are all written into the packet, and the encoder returns.
\<close>

theorem long_id_is_encoded:
  "encode_utf8 (idnum long_id_example) = Inr (replicate 256 0x41) \<and>
   build_packet long_id_example FUNC_READ (COMMAND_ON_OFF @ COMMAND_SPEED) =
     Inr (''FDFD0210'' @ concat (replicate 256 ''41'') @ ''027077'' @ ''010102'' @ ''FF41'')"
proof -
  let ?B = "[0xFD, 0xFD, 0x02, 0x10] @ replicate 256 0x41 @ [0x02, 0x70, 0x77, 0x01, 0x01, 0x02]
    :: byte list"
  have s: "sum_list (map unat (drop 2 ?B)) = 16895"
    by (simp add: sum_list_replicate)
  have h: "hex_digits 16895 = ''41ff''"
    by (simp add: hex_digits.simps hexchar_def)
  have c: "checksum (upper (bytes_hex ?B)) = Inr ''FF41''"
    unfolding checksum_bytes s
    by (simp add: format_04X_def h upper_def upper_char_def zfill_def format_str_02_def)
  have t: "concat (map token ?B) = ''FDFD0210'' @ concat (replicate 256 ''41'') @ ''027077010102''"
    by (simp add: token_values small_tokens)
  have "build_packet long_id_example (bytes_hex [0x01]) (bytes_hex [0x01, 0x02]) =
      and_then (checksum (concat (map token ?B))) (\<lambda>c. Inr (concat (map token ?B) @ c))"
    unfolding build_packet_bytes [OF long_id_example_fields(1,2,3)]
    by (simp add: long_id_example_fields(4))
  then have "build_packet long_id_example FUNC_READ (COMMAND_ON_OFF @ COMMAND_SPEED) =
      Inr ((''FDFD0210'' @ concat (replicate 256 ''41'') @ ''027077010102'') @ ''FF41'')"
    unfolding read_command_text upper_tokens [symmetric] c and_then_Inr
    unfolding upper_tokens t .
  with long_id_example_fields(1) show ?thesis by simp
qed

theorem build_packet_no_length_check_witness:
  "length (password long_password_example) = 300 \<and>
   (\<exists>packet. build_packet long_password_example FUNC_READ (COMMAND_ON_OFF @ COMMAND_SPEED) =
      Inr packet)"
proof -
  have "list_all encodable (idnum long_password_example)"
    "list_all encodable (password long_password_example)"
    by (simp_all add: long_password_example_def py_str_def encodable_def list_all_iff)
  moreover have "list_all is_hex (FUNC_READ @ COMMAND_ON_OFF @ COMMAND_SPEED)"
    by (simp add: api_consts is_hex_iff)
  ultimately have "\<exists>id_bytes password_bytes c.
      encode_utf8 (idnum long_password_example) = Inr id_bytes \<and>
      encode_utf8 (password long_password_example) = Inr password_bytes \<and>
      build_packet long_password_example FUNC_READ (COMMAND_ON_OFF @ COMMAND_SPEED) =
        Inr (upper (PACKET_PREFIX @ PACKET_PROTOCOL_TYPE @ PACKET_SIZE_ID @ bytes_hex id_bytes @
               format_02x (length (password long_password_example)) @ bytes_hex password_bytes @
               FUNC_READ @ COMMAND_ON_OFF @ COMMAND_SPEED) @ c)"
    by (rule build_packet_no_length_check)
  then have "\<exists>packet. build_packet long_password_example FUNC_READ
      (COMMAND_ON_OFF @ COMMAND_SPEED) = Inr packet"
    by (elim exE conjE) (rule exI)
  moreover have "length (password long_password_example) = 300"
    by (simp add: long_password_example_def)
  ultimately show ?thesis by (intro conjI)
qed

end
